theory Spec2Isabelle
  imports Complex_Main "HOL-Library.Log_Nat" "HOL-Library.Word"
begin

section \<open>Exceptions and the observable world\<close>

text \<open>
  The program of \<^verbatim>\<open>export.py\<close> raises no exception of its own: every failure
  comes out of a library call. The exceptions that the modelled calls can raise are
  the constructors of \<open>exc\<close>; \<open>ServiceError\<close> stands for any other exception of the
  client library or of the remote service (a rejected login, a malformed reply).
\<close>

datatype exc =
    KeyError string
  | ProtocolError
  | ValueError
  | ZeroDivisionError
  | OverflowError
  | TypeError
  | AttributeError
  | JSONDecodeError
  | OSError
  | ServiceError string

section \<open>Floats: true division of integers and \<^verbatim>\<open>math.ceil\<close>\<close>

text \<open>
  A finite double is a dyadic rational; the pair \<open>(m, s)\<close> stands for the double
  \<open>m / 2 ^ s\<close> (for \<open>s < 0\<close> that is \<open>m * 2 ^ (- s)\<close>).

  \<^verbatim>\<open>a / b\<close> on two Python integers is the quotient rounded once, to the nearest
  double, ties to the even mantissa: with \<open>2 ^ e \<le> a / b < 2 ^ (e + 1)\<close> the
  spacing of the doubles around the quotient is \<open>2 ^ (max e (- 1022) - 52)\<close>
  (the second case of the maximum are the subnormal numbers). A zero divisor raises
  \<^verbatim>\<open>ZeroDivisionError\<close>, a rounded quotient of \<open>2 ^ 1024\<close> or more raises
  \<^verbatim>\<open>OverflowError\<close>, and a quotient too small for any double is \<open>0.0\<close>.
\<close>

type_synonym pyfloat = "int \<times> int"

definition scale2 :: "int \<Rightarrow> int \<Rightarrow> int" where
  "scale2 x n = x * 2 ^ nat n"

definition float_exponent :: "int \<Rightarrow> int \<Rightarrow> int" where
  "float_exponent a b =
     (let d = bitlen a - bitlen b in if scale2 b d \<le> scale2 a (- d) then d else d - 1)"

definition round_half_even :: "int \<Rightarrow> int \<Rightarrow> int" where
  "round_half_even num den =
     (let q = num div den; r = num mod den
      in if 2 * r < den then q else if den < 2 * r then q + 1
         else if even q then q else q + 1)"

definition truediv_pos :: "int \<Rightarrow> int \<Rightarrow> exc + pyfloat" where
  "truediv_pos a b =
     (let e = float_exponent a b;
          s = 52 - max e (- 1022);
          m = round_half_even (scale2 a s) (scale2 b (- s))
      in if scale2 (2 ^ 1024) s \<le> scale2 m (- s) then Inl OverflowError else Inr (m, s))"

definition py_truediv :: "int \<Rightarrow> int \<Rightarrow> exc + pyfloat" where
  "py_truediv a b =
     (if b = 0 then Inl ZeroDivisionError
      else if a = 0 then Inr (0, 0)
      else (case truediv_pos \<bar>a\<bar> \<bar>b\<bar> of
              Inl e \<Rightarrow> Inl e
            | Inr (m, s) \<Rightarrow> Inr (if (a < 0) \<noteq> (b < 0) then - m else m, s)))"

definition math_ceil :: "pyfloat \<Rightarrow> int" where
  "math_ceil x = (case x of (m, s) \<Rightarrow> if s \<le> 0 then scale2 m (- s) else - ((- m) div 2 ^ nat s))"

section \<open>Data of the remote service\<close>

text \<open>
  The generated client models carry every attribute as an optional value; a missing
  attribute reads as \<^verbatim>\<open>None\<close>.
\<close>

record topic_tag =
  name :: "string option"
  slug :: "string option"

record question_detail =
  question_frontend_id :: "string option"
  title :: "string option"
  title_slug :: "string option"
  category_title :: "string option"
  frequency :: "pyfloat option"
  is_paid_only :: "bool option"
  topic_tags :: "topic_tag list option"
  company_tag_stats :: "string option"

record question_list =
  total_num :: "int option"
  questions :: "question_detail list option"

record graphql_data =
  problemset_question_list :: "question_list option"

record graphql_response =
  data :: "graphql_data option"

record variables =
  category_slug :: string
  limit :: int
  skip :: int
  filter_tags :: "string list option"

datatype query_doc = TotalNumQuery | QuestionsQuery

record graphql_query =
  query :: query_doc
  vars :: variables
  operation_name :: string

record api_client =
  x_csrftoken :: string
  csrftoken :: string
  leetcode_session :: string
  referer :: string
  debug :: bool

section \<open>The observable world\<close>

text \<open>
  The argument of \<^verbatim>\<open>time.sleep\<close> is a Python number of seconds: an integer, a
  finite float, an infinity or a NaN.
\<close>

datatype delay =
    Seconds int
  | FloatSeconds pyfloat
  | FloatInf
  | FloatNegInf
  | FloatNaN

text \<open>
  What a run does to its surroundings is recorded as a trace of events, oldest
  first: sleeps, log records and the calls that reach the remote transport
  (\<open>NetCsrf\<close> for the token lookup, \<open>NetGraphql\<close> for a posted query). The remote
  service answers a call as a function of the trace so far, so that it can fail a
  number of times before it answers. The file system maps a path to the text of
  the file.

  Two more parts of the surroundings decide failures of library calls. The
  monotonic clock is read by \<^verbatim>\<open>time.sleep\<close>: \<open>monotonic w n\<close> is its reading in
  nanoseconds after \<open>n\<close> events, a number below \<open>2 ^ 62\<close> (146 years since the
  machine started). The progress bar of \<^verbatim>\<open>tqdm\<close> is redrawn from its total, its
  scale and its count: \<open>progress_bar w total unit_scale n\<close> is the exception that
  the redraw raises, if any, where the model does not decide it
  (see \<open>tqdm_display\<close>).
\<close>

datatype event =
    Sleep delay
  | LogException int int
  | LogError string
  | LogInfo int int
  | NetCsrf string
  | NetGraphql api_client graphql_query

record world =
  environ :: "string \<Rightarrow> string option"
  trace :: "event list"
  csrf_service :: "event list \<Rightarrow> string \<Rightarrow> exc + string"
  graphql_service :: "event list \<Rightarrow> api_client \<Rightarrow> graphql_query \<Rightarrow> exc + graphql_response"
  files :: "string \<Rightarrow> string option"
  monotonic :: "nat \<Rightarrow> 62 word"
  progress_bar :: "int \<Rightarrow> int \<Rightarrow> int \<Rightarrow> exc option"

definition emit :: "event \<Rightarrow> 'z world_scheme \<Rightarrow> 'z world_scheme" where
  "emit ev w = w\<lparr>trace := trace w @ [ev]\<rparr>"

text \<open>
  \<^verbatim>\<open>time.sleep\<close>, as CPython 3.11 has it on Linux, first converts its argument to a
  timeout in nanoseconds, a signed 64-bit integer. An integer of seconds is multiplied by \<open>10 ^ 9\<close>, and
  \<^verbatim>\<open>OverflowError\<close> is raised when the product does not fit: when the argument is
  above 9223372036 or below its negative. A float is multiplied by the double
  \<open>10 ^ 9\<close> (one rounding), the product is rounded to an integer away from zero,
  and \<^verbatim>\<open>OverflowError\<close> is raised unless \<open>- 2 ^ 63 \<le> ns < 2 ^ 63\<close>; so it is for
  the infinities, and a NaN raises \<^verbatim>\<open>ValueError\<close>. A negative timeout is refused
  after the conversion, with a \<^verbatim>\<open>ValueError\<close>.
\<close>

definition float_times_1e9 :: "pyfloat \<Rightarrow> exc + pyfloat" where
  "float_times_1e9 x =
     (case x of (m, s) \<Rightarrow>
        if s \<le> 0 then py_truediv (scale2 m (- s) * 1000000000) 1
        else py_truediv (m * 1000000000) (2 ^ nat s))"

definition round_away :: "pyfloat \<Rightarrow> int" where
  "round_away x = (case x of (m, s) \<Rightarrow> if 0 \<le> m then math_ceil (m, s) else - math_ceil (- m, s))"

definition sleep_timeout :: "delay \<Rightarrow> exc + int" where
  "sleep_timeout d =
     (case d of
        Seconds n \<Rightarrow>
          if n < - 9223372036 \<or> 9223372036 < n then Inl OverflowError
          else if n < 0 then Inl ValueError
          else Inr (n * 1000000000)
      | FloatSeconds x \<Rightarrow>
          (case float_times_1e9 x of
             Inl e \<Rightarrow> Inl OverflowError
           | Inr p \<Rightarrow>
               (let ns = round_away p
                in if ns < - (2 ^ 63) \<or> 2 ^ 63 \<le> ns then Inl OverflowError
                   else if ns < 0 then Inl ValueError
                   else Inr ns))
      | FloatInf \<Rightarrow> Inl OverflowError
      | FloatNegInf \<Rightarrow> Inl OverflowError
      | FloatNaN \<Rightarrow> Inl ValueError)"

text \<open>
  The sleep then lasts until the deadline, the reading of the monotonic clock plus
  the timeout. The sum is a signed 64-bit integer too: one of \<open>2 ^ 63\<close> or more
  wraps around to a negative deadline, which the operating system refuses
  (\<^verbatim>\<open>OSError\<close>). A timeout of at most \<open>2 ^ 62\<close> nanoseconds is always accepted.
\<close>

definition time_sleep :: "delay \<Rightarrow> 'z world_scheme \<Rightarrow> (exc + unit) \<times> 'z world_scheme" where
  "time_sleep d w =
     (case sleep_timeout d of
        Inl e \<Rightarrow> (Inl e, w)
      | Inr ns \<Rightarrow>
          if 2 ^ 63 \<le> uint (monotonic w (length (trace w))) + ns then (Inl OSError, w)
          else (Inr (), emit (Sleep d) w))"

text \<open>The delays that \<^verbatim>\<open>time.sleep\<close> accepts whatever the clock reads.\<close>

definition accepted_delay :: "delay \<Rightarrow> bool" where
  "accepted_delay d = (case sleep_timeout d of Inl e \<Rightarrow> False | Inr ns \<Rightarrow> ns \<le> 2 ^ 62)"

definition is_net :: "event \<Rightarrow> bool" where
  "is_net ev = (case ev of NetCsrf s \<Rightarrow> True | NetGraphql c q \<Rightarrow> True | _ \<Rightarrow> False)"

section \<open>The retry decorator\<close>

text \<open>
  \<^verbatim>\<open>retry(times, exceptions, delay)(func)\<close>: the loop body runs for
  \<^verbatim>\<open>attempt in range(times - 1)\<close>; a result returns at once, an exception matched
  by \<^verbatim>\<open>exceptions\<close> is logged, followed by the sleep; any other exception leaves
  the wrapper. After the loop comes the log record "Last try" and one more call,
  outside every \<^verbatim>\<open>try\<close>. The tuple of exception classes is the predicate
  \<open>exceptions\<close>, and the parameter \<^verbatim>\<open>times\<close> is written \<open>tms\<close>.
\<close>

fun wrapper_loop ::
  "int \<Rightarrow> (exc \<Rightarrow> bool) \<Rightarrow> delay \<Rightarrow> ('z world_scheme \<Rightarrow> (exc + 'a) \<times> 'z world_scheme)
   \<Rightarrow> int list \<Rightarrow> 'z world_scheme \<Rightarrow> (exc + 'a) \<times> 'z world_scheme" where
  "wrapper_loop tms exceptions delay func [] w =
     func (emit (LogError ''Last try'') w)"
| "wrapper_loop tms exceptions delay func (attempt # rest) w =
     (case func w of
        (Inr v, w1) \<Rightarrow> (Inr v, w1)
      | (Inl e, w1) \<Rightarrow>
          if exceptions e then
            (case time_sleep delay (emit (LogException (attempt + 1) tms) w1) of
               (Inl e2, w2) \<Rightarrow> (Inl e2, w2)
             | (Inr u, w2) \<Rightarrow> wrapper_loop tms exceptions delay func rest w2)
          else (Inl e, w1))"

text \<open>\<^verbatim>\<open>range(n)\<close> for a Python integer \<open>n\<close>: empty when \<open>n \<le> 0\<close>.\<close>

definition py_range :: "int \<Rightarrow> int list" where
  "py_range n = map int [0..<nat n]"

definition retry ::
  "int \<Rightarrow> (exc \<Rightarrow> bool) \<Rightarrow> delay \<Rightarrow> ('z world_scheme \<Rightarrow> (exc + 'a) \<times> 'z world_scheme)
   \<Rightarrow> 'z world_scheme \<Rightarrow> (exc + 'a) \<times> 'z world_scheme" where
  "retry tms exceptions delay func = wrapper_loop tms exceptions delay func (py_range (tms - 1))"

subsection \<open>A scripted function that counts its calls\<close>

text \<open>
  The wrapped function of the retry properties: its \<open>i\<close>-th call (counted from 0)
  has the outcome \<open>outcomes i\<close>, and every call is counted in the field \<open>ncalls\<close>.
\<close>

record counting_world = world +
  ncalls :: nat

definition scripted :: "(nat \<Rightarrow> exc + 'a) \<Rightarrow> counting_world \<Rightarrow> (exc + 'a) \<times> counting_world" where
  "scripted outcomes w = (outcomes (ncalls w), w\<lparr>ncalls := Suc (ncalls w)\<rparr>)"

primrec sleeps :: "event list \<Rightarrow> delay list" where
  "sleeps [] = []"
| "sleeps (ev # tr) = (case ev of Sleep d \<Rightarrow> [d] | _ \<Rightarrow> []) @ sleeps tr"

definition fresh_counting_world :: counting_world where
  "fresh_counting_world =
     \<lparr>environ = (\<lambda>k. None), trace = [],
      csrf_service = (\<lambda>tr s. Inl ProtocolError),
      graphql_service = (\<lambda>tr c q. Inl ProtocolError),
      files = (\<lambda>p. None), monotonic = (\<lambda>n. 0), progress_bar = (\<lambda>t u n. None),
      ncalls = 0\<rparr>"

section \<open>The client factory and the two fetchers\<close>

text \<open>
  \<^verbatim>\<open>leetcode.auth.get_csrf_cookie\<close> and \<^verbatim>\<open>DefaultApi.graphql_post\<close> are the two
  calls that reach the remote service: each is recorded in the trace and answered
  by the service from the trace before the call.
\<close>

definition get_csrf_cookie :: "string \<Rightarrow> 'z world_scheme \<Rightarrow> (exc + string) \<times> 'z world_scheme" where
  "get_csrf_cookie session_id w = (csrf_service w (trace w) session_id, emit (NetCsrf session_id) w)"

definition graphql_post ::
  "api_client \<Rightarrow> graphql_query \<Rightarrow> 'z world_scheme \<Rightarrow> (exc + graphql_response) \<times> 'z world_scheme" where
  "graphql_post api body w = (graphql_service w (trace w) api body, emit (NetGraphql api body) w)"

definition session_client :: "string \<Rightarrow> string \<Rightarrow> api_client" where
  "session_client session_id csrf_token =
     \<lparr>x_csrftoken = csrf_token, csrftoken = csrf_token, leetcode_session = session_id,
      referer = ''https://leetcode.com'', debug = False\<rparr>"

text \<open>
  \<^verbatim>\<open>_get_leetcode_api_client\<close>: \<^verbatim>\<open>os.environ["LEETCODE_SESSION_ID"]\<close> raises
  \<^verbatim>\<open>KeyError\<close> when the variable is not set; the token lookup follows it.
\<close>

definition get_leetcode_api_client :: "'z world_scheme \<Rightarrow> (exc + api_client) \<times> 'z world_scheme" where
  "get_leetcode_api_client w =
     (case environ w ''LEETCODE_SESSION_ID'' of
        None \<Rightarrow> (Inl (KeyError ''LEETCODE_SESSION_ID''), w)
      | Some session_id \<Rightarrow>
          (case get_csrf_cookie session_id w of
             (Inl e, w1) \<Rightarrow> (Inl e, w1)
           | (Inr csrf_token, w1) \<Rightarrow>
               (Inr (session_client session_id csrf_token), w1)))"

text \<open>\<^verbatim>\<open>x or 0\<close> on an optional integer: \<^verbatim>\<open>None\<close> and \<open>0\<close> are falsy.\<close>

definition or_zero :: "int option \<Rightarrow> int" where
  "or_zero x = (case x of None \<Rightarrow> 0 | Some n \<Rightarrow> if n = 0 then 0 else n)"

definition count_request :: graphql_query where
  "count_request =
     \<lparr>query = TotalNumQuery,
      vars = \<lparr>category_slug = [], limit = 1, skip = 0, filter_tags = Some []\<rparr>,
      operation_name = ''problemsetQuestionList''\<rparr>"

text \<open>
  The body of \<^verbatim>\<open>_get_problems_count\<close>, before decoration. Reading an attribute of
  \<^verbatim>\<open>None\<close> raises \<^verbatim>\<open>AttributeError\<close>.
\<close>

definition get_problems_count_body :: "'z world_scheme \<Rightarrow> (exc + int) \<times> 'z world_scheme" where
  "get_problems_count_body w =
     (case get_leetcode_api_client w of
        (Inl e, w1) \<Rightarrow> (Inl e, w1)
      | (Inr api_instance, w1) \<Rightarrow>
          (case time_sleep (Seconds 2) w1 of
             (Inl e, w2) \<Rightarrow> (Inl e, w2)
           | (Inr u, w2) \<Rightarrow>
               (case graphql_post api_instance count_request w2 of
                  (Inl e, w3) \<Rightarrow> (Inl e, w3)
                | (Inr response, w3) \<Rightarrow>
                    (case data response of
                       None \<Rightarrow> (Inl AttributeError, w3)
                     | Some d \<Rightarrow>
                         (case problemset_question_list d of
                            None \<Rightarrow> (Inl AttributeError, w3)
                          | Some ql \<Rightarrow> (Inr (or_zero (total_num ql)), w3))))))"

definition page_request :: "int \<Rightarrow> int \<Rightarrow> int \<Rightarrow> graphql_query" where
  "page_request offset page_size page =
     \<lparr>query = QuestionsQuery,
      vars = \<lparr>category_slug = [], limit = page_size, skip = offset + page * page_size,
              filter_tags = None\<rparr>,
      operation_name = ''problemsetQuestionList''\<rparr>"

text \<open>The body of \<^verbatim>\<open>_get_problems_data_page\<close>, before decoration.\<close>

definition get_problems_data_page_body ::
  "int \<Rightarrow> int \<Rightarrow> int \<Rightarrow> 'z world_scheme \<Rightarrow> (exc + question_detail list option) \<times> 'z world_scheme" where
  "get_problems_data_page_body offset page_size page w =
     (case get_leetcode_api_client w of
        (Inl e, w1) \<Rightarrow> (Inl e, w1)
      | (Inr api_instance, w1) \<Rightarrow>
          (case time_sleep (Seconds 2) w1 of
             (Inl e, w2) \<Rightarrow> (Inl e, w2)
           | (Inr u, w2) \<Rightarrow>
               (case graphql_post api_instance (page_request offset page_size page) w2 of
                  (Inl e, w3) \<Rightarrow> (Inl e, w3)
                | (Inr response, w3) \<Rightarrow>
                    (case data response of
                       None \<Rightarrow> (Inl AttributeError, w3)
                     | Some d \<Rightarrow>
                         (case problemset_question_list d of
                            None \<Rightarrow> (Inl AttributeError, w3)
                          | Some ql \<Rightarrow> (Inr (questions ql), w3))))))"

text \<open>
  The exception tuple of both decorated fetchers,
  \<^verbatim>\<open>(urllib3.exceptions.ProtocolError,)\<close>, and the decorated functions
  \<^verbatim>\<open>_get_problems_count\<close> and \<^verbatim>\<open>_get_problems_data_page\<close>.
\<close>

definition transient :: "exc \<Rightarrow> bool" where
  "transient e = (e = ProtocolError)"

definition get_problems_count :: "'z world_scheme \<Rightarrow> (exc + int) \<times> 'z world_scheme" where
  "get_problems_count = retry 3 transient (Seconds 5) get_problems_count_body"

definition get_problems_data_page ::
  "int \<Rightarrow> int \<Rightarrow> int \<Rightarrow> 'z world_scheme \<Rightarrow> (exc + question_detail list option) \<times> 'z world_scheme" where
  "get_problems_data_page offset page_size page =
     retry 3 transient (Seconds 5) (get_problems_data_page_body offset page_size page)"

section \<open>The pagination driver\<close>

text \<open>
  \<^verbatim>\<open>_get_problems_data\<close> calls the two module-level fetchers; a test replaces
  them by mocks, so the driver is written over the pair of fetchers it calls and
  \<open>get_problems_data\<close> is its instance at the decorated fetchers.

  The f-string of the log record turns its two integers into decimal text, which
  raises \<^verbatim>\<open>ValueError\<close> for an integer of more than 4300 digits (the default
  limit of the conversion).
\<close>

definition str_refuses :: "int \<Rightarrow> bool" where
  "str_refuses n = (10 ^ 4300 \<le> \<bar>n\<bar>)"

text \<open>
  The loop runs over \<^verbatim>\<open>tqdm(range(pages), unit="problem", unit_scale=page_size)\<close>.
  The progress bar takes \<^verbatim>\<open>len\<close> of the range as its total, which raises
  \<^verbatim>\<open>OverflowError\<close> for \<open>2 ^ 63\<close> pages or more, before any page is fetched. It
  is drawn when it is made and redrawn after every page: every fetch of the
  program lasts the two seconds of its sleep, longer than the refresh interval of
  the bar. To draw itself the bar multiplies its counts and its rate by
  \<^verbatim>\<open>unit_scale\<close> and converts them to floats and to text:

    \<^item> while \<open>total * \<bar>unit_scale\<bar> < 2 ^ 1023\<close> every scaled count converts, and the
      redraw raises nothing (so it is for a total of 0, where only zeros are
      scaled);
    \<^item> once a page has been counted the rate is scaled as a float, which raises
      \<^verbatim>\<open>OverflowError\<close> when \<^verbatim>\<open>unit_scale\<close> has no double;
    \<^item> any other redraw is decided by the surroundings (\<open>progress_bar\<close>).
\<close>

definition tqdm_display :: "'z world_scheme \<Rightarrow> int \<Rightarrow> int \<Rightarrow> int \<Rightarrow> exc option" where
  "tqdm_display w bar_total unit_scale n =
     (if bar_total * \<bar>unit_scale\<bar> < 2 ^ 1023 then None
      else if 0 < n \<and> py_truediv \<bar>unit_scale\<bar> 1 = Inl OverflowError then Some OverflowError
      else progress_bar w bar_total unit_scale n)"

text \<open>
  The body of the loop, for the page indices that are left, \<open>bar_total\<close> being
  the total of the bar. Extending a list by \<^verbatim>\<open>None\<close> raises \<^verbatim>\<open>TypeError\<close>.
\<close>

fun fetch_pages ::
  "(int \<Rightarrow> int \<Rightarrow> int \<Rightarrow> 'z world_scheme \<Rightarrow> (exc + question_detail list option) \<times> 'z world_scheme)
   \<Rightarrow> int \<Rightarrow> int \<Rightarrow> int \<Rightarrow> int list \<Rightarrow> question_detail list \<Rightarrow> 'z world_scheme
   \<Rightarrow> (exc + question_detail list) \<times> 'z world_scheme" where
  "fetch_pages page_fetcher start page_size bar_total [] problems w = (Inr problems, w)"
| "fetch_pages page_fetcher start page_size bar_total (page # rest) problems w =
     (case page_fetcher start page_size page w of
        (Inl e, w1) \<Rightarrow> (Inl e, w1)
      | (Inr None, w1) \<Rightarrow> (Inl TypeError, w1)
      | (Inr (Some d), w1) \<Rightarrow>
          (case tqdm_display w1 bar_total page_size (page + 1) of
             Some e \<Rightarrow> (Inl e, w1)
           | None \<Rightarrow> fetch_pages page_fetcher start page_size bar_total rest (problems @ d) w1))"

definition page_count :: "int \<Rightarrow> int \<Rightarrow> int \<Rightarrow> exc + int" where
  "page_count start stop page_size =
     (case py_truediv (stop - start + 1) page_size of
        Inl e \<Rightarrow> Inl e
      | Inr x \<Rightarrow> Inr (math_ceil x))"

definition get_problems_data_with ::
  "('z world_scheme \<Rightarrow> (exc + int) \<times> 'z world_scheme)
   \<Rightarrow> (int \<Rightarrow> int \<Rightarrow> int \<Rightarrow> 'z world_scheme \<Rightarrow> (exc + question_detail list option) \<times> 'z world_scheme)
   \<Rightarrow> int \<Rightarrow> 'z world_scheme \<Rightarrow> (exc + question_detail list) \<times> 'z world_scheme" where
  "get_problems_data_with count_fetcher page_fetcher page_size w =
     (case count_fetcher w of
        (Inl e, w1) \<Rightarrow> (Inl e, w1)
      | (Inr problem_count, w1) \<Rightarrow>
          (let start = 0; stop = problem_count
           in if str_refuses (stop - start + 1) \<or> str_refuses page_size then (Inl ValueError, w1)
              else
                (let w2 = emit (LogInfo (stop - start + 1) page_size) w1
                 in case page_count start stop page_size of
                      Inl e \<Rightarrow> (Inl e, w2)
                    | Inr pages \<Rightarrow>
                        if 2 ^ 63 \<le> pages then (Inl OverflowError, w2)
                        else
                          (case tqdm_display w2 (max 0 pages) page_size 0 of
                             Some e \<Rightarrow> (Inl e, w2)
                           | None \<Rightarrow>
                               fetch_pages page_fetcher start page_size (max 0 pages)
                                 (py_range pages) [] w2))))"

definition get_problems_data ::
  "int \<Rightarrow> 'z world_scheme \<Rightarrow> (exc + question_detail list) \<times> 'z world_scheme" where
  "get_problems_data = get_problems_data_with get_problems_count get_problems_data_page"

text \<open>
  The window of items that a posted query asks for: \<open>limit\<close> positions from \<open>skip\<close> on.
\<close>

definition window :: "graphql_query \<Rightarrow> int set" where
  "window q = {skip (vars q) ..< skip (vars q) + limit (vars q)}"

subsection \<open>Mock fetchers\<close>

text \<open>
  The mock count fetcher returns a fixed total. The mock page fetcher records the
  arguments of each call and returns, at its \<open>i\<close>-th call (counted from 0), the
  list \<open>pages i\<close>.
\<close>

record mock_world = world +
  page_calls :: "(int \<times> int \<times> int) list"

definition mock_count :: "int \<Rightarrow> mock_world \<Rightarrow> (exc + int) \<times> mock_world" where
  "mock_count total_count w = (Inr total_count, w)"

definition mock_page ::
  "(nat \<Rightarrow> question_detail list) \<Rightarrow> int \<Rightarrow> int \<Rightarrow> int \<Rightarrow> mock_world
   \<Rightarrow> (exc + question_detail list option) \<times> mock_world" where
  "mock_page pages offset page_size page w =
     (Inr (Some (pages (length (page_calls w)))),
      w\<lparr>page_calls := page_calls w @ [(offset, page_size, page)]\<rparr>)"

definition fresh_mock_world :: mock_world where
  "fresh_mock_world =
     \<lparr>environ = (\<lambda>k. None), trace = [],
      csrf_service = (\<lambda>tr s. Inl ProtocolError),
      graphql_service = (\<lambda>tr c q. Inl ProtocolError),
      files = (\<lambda>p. None), monotonic = (\<lambda>n. 0), progress_bar = (\<lambda>t u n. None),
      page_calls = []\<rparr>"

section \<open>The export\<close>

text \<open>
  Three library behaviours that the source does not fix are parameters of the model:
  \<^verbatim>\<open>json.loads\<close> (a parsed value or the exception raised), the order in which a
  Python set of strings is iterated (given the strings in the order they were
  added), and \<^verbatim>\<open>repr\<close> of a float. A JSON object lists the items of the Python
  dictionary in its order, with distinct keys.
\<close>

datatype json =
    JNull
  | JBool bool
  | JInt int
  | JFloat pyfloat
  | JString string
  | JArray "json list"
  | JObject "(string \<times> json) list"

record pylib =
  json_loads :: "string \<Rightarrow> exc + json"
  set_iter :: "string list \<Rightarrow> string list"
  float_repr :: "pyfloat \<Rightarrow> string"


text \<open>\<^verbatim>\<open>sep.join(xs)\<close> on a list of strings.\<close>

fun join :: "string \<Rightarrow> string list \<Rightarrow> string" where
  "join sep [] = []"
| "join sep [x] = x"
| "join sep (x # y # ys) = x @ sep @ join sep (y # ys)"

text \<open>
  \<^verbatim>\<open>",".join([d.slug for d in problem_data.topic_tags])\<close>: iterating \<^verbatim>\<open>None\<close>
  and joining a \<^verbatim>\<open>None\<close> raise \<^verbatim>\<open>TypeError\<close>.
\<close>

definition topics_field :: "question_detail \<Rightarrow> exc + string" where
  "topics_field problem_data =
     (case topic_tags problem_data of
        None \<Rightarrow> Inl TypeError
      | Some tags \<Rightarrow>
          (case those (map slug tags) of
             None \<Rightarrow> Inl TypeError
           | Some slugs \<Rightarrow> Inr (join '','' slugs)))"

text \<open>
  Iterating a parsed value: a list gives its elements, a dictionary its keys, a
  string its characters; anything else raises \<^verbatim>\<open>TypeError\<close>.
\<close>

definition iter_json :: "json \<Rightarrow> exc + json list" where
  "iter_json v =
     (case v of
        JArray xs \<Rightarrow> Inr xs
      | JObject kvs \<Rightarrow> Inr (map (\<lambda>kv. JString (fst kv)) kvs)
      | JString s \<Rightarrow> Inr (map (\<lambda>c. JString [c]) s)
      | _ \<Rightarrow> Inl TypeError)"

text \<open>
  \<^verbatim>\<open>d["slug"]\<close>: a dictionary without the key raises \<^verbatim>\<open>KeyError\<close>, any other
  value raises \<^verbatim>\<open>TypeError\<close>.
\<close>

definition subscript_slug :: "json \<Rightarrow> exc + json" where
  "subscript_slug d =
     (case d of
        JObject kvs \<Rightarrow>
          (case map_of kvs ''slug'' of None \<Rightarrow> Inl (KeyError ''slug'') | Some v \<Rightarrow> Inr v)
      | _ \<Rightarrow> Inl TypeError)"

text \<open>Lists and dictionaries cannot be added to a set.\<close>

definition hashable :: "json \<Rightarrow> bool" where
  "hashable v = (case v of JArray xs \<Rightarrow> False | JObject kvs \<Rightarrow> False | _ \<Rightarrow> True)"

text \<open>
  The set comprehension over \<^verbatim>\<open>itertools.chain(*values)\<close>: the values are
  iterated one after the other, and each element is subscripted and added to the
  set before the next one is produced.
\<close>

fun collect_slugs :: "json list \<Rightarrow> exc + json list" where
  "collect_slugs [] = Inr []"
| "collect_slugs (d # ds) =
     (case subscript_slug d of
        Inl e \<Rightarrow> Inl e
      | Inr v \<Rightarrow>
          if \<not> hashable v then Inl TypeError
          else (case collect_slugs ds of Inl e \<Rightarrow> Inl e | Inr vs \<Rightarrow> Inr (v # vs)))"

fun chain_slugs :: "json list \<Rightarrow> exc + json list" where
  "chain_slugs [] = Inr []"
| "chain_slugs (v # vs) =
     (case iter_json v of
        Inl e \<Rightarrow> Inl e
      | Inr ds \<Rightarrow>
          (case collect_slugs ds of
             Inl e \<Rightarrow> Inl e
           | Inr a \<Rightarrow> (case chain_slugs vs of Inl e \<Rightarrow> Inl e | Inr b \<Rightarrow> Inr (a @ b))))"

definition as_strings :: "json list \<Rightarrow> string list option" where
  "as_strings vs = those (map (\<lambda>v. case v of JString s \<Rightarrow> Some s | _ \<Rightarrow> None) vs)"

text \<open>
  The companies field. \<^verbatim>\<open>json.loads(None)\<close> raises \<^verbatim>\<open>TypeError\<close>, a parsed value
  that is not a dictionary has no \<^verbatim>\<open>values\<close> (\<^verbatim>\<open>AttributeError\<close>), and joining a
  set with a member that is not a string raises \<^verbatim>\<open>TypeError\<close>.
\<close>

definition companies_field :: "pylib \<Rightarrow> question_detail \<Rightarrow> exc + string" where
  "companies_field L problem_data =
     (case company_tag_stats problem_data of
        None \<Rightarrow> Inl TypeError
      | Some text \<Rightarrow>
          (case json_loads L text of
             Inl e \<Rightarrow> Inl e
           | Inr (JObject kvs) \<Rightarrow>
               (case chain_slugs (map snd kvs) of
                  Inl e \<Rightarrow> Inl e
                | Inr vs \<Rightarrow>
                    (case as_strings vs of
                       None \<Rightarrow> Inl TypeError
                     | Some slugs \<Rightarrow> Inr (join '','' (set_iter L slugs))))
           | Inr _ \<Rightarrow> Inl AttributeError))"

text \<open>The values handed to \<^verbatim>\<open>csv_writer.writerow\<close>.\<close>

datatype cell = CNone | CStr string | CFloat pyfloat | CBool bool

definition cell_of :: "('a \<Rightarrow> cell) \<Rightarrow> 'a option \<Rightarrow> cell" where
  "cell_of f x = (case x of None \<Rightarrow> CNone | Some v \<Rightarrow> f v)"

text \<open>
  The list literal of one row: its elements are evaluated from left to right, the
  topics before the companies.
\<close>

definition problem_row :: "pylib \<Rightarrow> question_detail \<Rightarrow> exc + cell list" where
  "problem_row L problem_data =
     (case topics_field problem_data of
        Inl e \<Rightarrow> Inl e
      | Inr topics \<Rightarrow>
          (case companies_field L problem_data of
             Inl e \<Rightarrow> Inl e
           | Inr companies \<Rightarrow>
               Inr [cell_of CStr (question_frontend_id problem_data),
                    cell_of CStr (title problem_data),
                    cell_of CStr (title_slug problem_data),
                    cell_of CStr (category_title problem_data),
                    cell_of CFloat (frequency problem_data),
                    cell_of CBool (is_paid_only problem_data),
                    CStr topics,
                    CStr companies]))"

definition csv_header :: "cell list" where
  "csv_header =
     [CStr ''Question id'', CStr ''title'', CStr ''slug'', CStr ''category'',
      CStr ''frequency'', CStr ''is_paid'', CStr ''topics'', CStr ''companies'']"

subsection \<open>The writer\<close>

text \<open>
  \<^verbatim>\<open>csv.writer(csv_file, delimiter=";")\<close> with the other settings of the default
  dialect: \<^verbatim>\<open>None\<close> is written as the empty string and any other value through
  \<^verbatim>\<open>str\<close>; a field holding the delimiter, a double quote, a carriage return or a
  line feed is put in double quotes with its double quotes doubled; a row of one
  empty field is written as two double quotes; every row ends in carriage return
  and line feed.
\<close>

definition dquote :: char where
  "dquote = CHR 0x22"

definition crlf :: string where
  "crlf = [CHR 0x0D, CHR 0x0A]"

definition cell_text :: "pylib \<Rightarrow> cell \<Rightarrow> string" where
  "cell_text L c =
     (case c of
        CNone \<Rightarrow> []
      | CStr s \<Rightarrow> s
      | CFloat x \<Rightarrow> float_repr L x
      | CBool b \<Rightarrow> if b then ''True'' else ''False'')"

definition needs_quotes :: "char \<Rightarrow> string \<Rightarrow> bool" where
  "needs_quotes delimiter s =
     list_ex (\<lambda>c. c = delimiter \<or> c = dquote \<or> c = CHR 0x0D \<or> c = CHR 0x0A) s"

definition csv_field :: "char \<Rightarrow> string \<Rightarrow> string" where
  "csv_field delimiter s =
     (if needs_quotes delimiter s
      then [dquote] @ concat (map (\<lambda>c. if c = dquote then [dquote, dquote] else [c]) s) @ [dquote]
      else s)"

definition writerow_text :: "pylib \<Rightarrow> char \<Rightarrow> cell list \<Rightarrow> string" where
  "writerow_text L delimiter row =
     (if map (cell_text L) row = [''''] then [dquote, dquote] @ crlf
      else join [delimiter] (map (\<lambda>c. csv_field delimiter (cell_text L c)) row) @ crlf)"

text \<open>
  Opening a file for writing creates it empty, and the text written is appended.
  The file is taken to be writable, its encoding to have every character of the
  text, and the line separator of the system to be the line feed, so that the text
  written is the text of the file; what is written before an exception leaves the
  \<^verbatim>\<open>with\<close> block is in the file, which the block closes.
\<close>

definition file_open_w :: "string \<Rightarrow> 'z world_scheme \<Rightarrow> 'z world_scheme" where
  "file_open_w path w = w\<lparr>files := (files w)(path \<mapsto> [])\<rparr>"

definition file_write :: "string \<Rightarrow> string \<Rightarrow> 'z world_scheme \<Rightarrow> 'z world_scheme" where
  "file_write path text w =
     w\<lparr>files := (files w)(path \<mapsto> (case files w path of None \<Rightarrow> [] | Some old \<Rightarrow> old) @ text)\<rparr>"

fun write_rows ::
  "pylib \<Rightarrow> string \<Rightarrow> question_detail list \<Rightarrow> 'z world_scheme \<Rightarrow> (exc + unit) \<times> 'z world_scheme" where
  "write_rows L path [] w = (Inr (), w)"
| "write_rows L path (problem_data # rest) w =
     (case problem_row L problem_data of
        Inl e \<Rightarrow> (Inl e, w)
      | Inr row \<Rightarrow> write_rows L path rest (file_write path (writerow_text L CHR '';'' row) w))"

text \<open>The \<^verbatim>\<open>with\<close> block of \<^verbatim>\<open>main\<close>.\<close>

definition export_csv ::
  "pylib \<Rightarrow> string \<Rightarrow> question_detail list \<Rightarrow> 'z world_scheme \<Rightarrow> (exc + unit) \<times> 'z world_scheme" where
  "export_csv L path problems_data w =
     write_rows L path problems_data
       (file_write path (writerow_text L CHR '';'' csv_header) (file_open_w path w))"

text \<open>
  \<^verbatim>\<open>main\<close>, with the parsed command line as its argument (\<^verbatim>\<open>--batch-size\<close>,
  default 300, and \<^verbatim>\<open>--output\<close>, default \<^verbatim>\<open>problems.csv\<close>).
\<close>

record args =
  batch_size :: int
  "output" :: string

definition default_args :: args where
  "default_args = \<lparr>batch_size = 300, output = ''problems.csv''\<rparr>"

definition main :: "pylib \<Rightarrow> args \<Rightarrow> 'z world_scheme \<Rightarrow> (exc + unit) \<times> 'z world_scheme" where
  "main L a w =
     (case get_problems_data (batch_size a) w of
        (Inl e, w1) \<Rightarrow> (Inl e, w1)
      | (Inr problems_data, w1) \<Rightarrow> export_csv L (output a) problems_data w1)"

subsection \<open>Sample data\<close>

text \<open>
  A world whose service answers the count query with a null total, and a question
  with an identifier and a title only.
\<close>

definition null_total_world :: mock_world where
  "null_total_world =
     \<lparr>environ = (\<lambda>k. if k = ''LEETCODE_SESSION_ID'' then Some ''session'' else None),
      trace = [],
      csrf_service = (\<lambda>tr s. Inr ''token''),
      graphql_service = (\<lambda>tr c q.
        Inr \<lparr>data = Some \<lparr>problemset_question_list = Some \<lparr>total_num = None, questions = None\<rparr>\<rparr>\<rparr>),
      files = (\<lambda>p. None), monotonic = (\<lambda>n. 0), progress_bar = (\<lambda>t u n. None),
      page_calls = []\<rparr>"

definition plain_question :: "string \<Rightarrow> string \<Rightarrow> question_detail" where
  "plain_question qid ttl =
     \<lparr>question_frontend_id = Some qid, title = Some ttl, title_slug = None,
      category_title = None, frequency = None, is_paid_only = None,
      topic_tags = Some [], company_tag_stats = None\<rparr>"

section \<open>The export as the specification describes it\<close>

















subsection \<open>Sample items\<close>

text \<open>
  The company statistics of the specification's example, statistics with a
  dictionary in the place of a list, and statistics with an entry that has no
  slug. The sample library decodes these three texts as \<^verbatim>\<open>json.loads\<close> does, and
  iterates a set in the order in which its members were first added.
\<close>

definition example_stats :: string where
  \<open>example_stats = ''{"CompanyA": [{"slug": "x"}, {"slug": "y"}], "CompanyB": [{"slug": "x"}]}''\<close>

definition dict_stats :: string where
  \<open>dict_stats = ''{"A": {}}''\<close>

definition nameless_stats :: string where
  \<open>nameless_stats = ''{"A": [{"name": "x"}]}''\<close>

definition sample_json_loads :: "string \<Rightarrow> exc + json" where
  "sample_json_loads text =
     (if text = example_stats then
        Inr (JObject [(''CompanyA'', JArray [JObject [(''slug'', JString ''x'')],
                                             JObject [(''slug'', JString ''y'')]]),
                      (''CompanyB'', JArray [JObject [(''slug'', JString ''x'')]])])
      else if text = dict_stats then Inr (JObject [(''A'', JObject [])])
      else if text = nameless_stats then
        Inr (JObject [(''A'', JArray [JObject [(''name'', JString ''x'')]])])
      else Inl JSONDecodeError)"

definition sample_pylib :: pylib where
  "sample_pylib =
     \<lparr>json_loads = sample_json_loads, set_iter = (\<lambda>xs. rev (remdups (rev xs))),
      float_repr = (\<lambda>x. ''0.0'')\<rparr>"




section \<open>Properties of the retry decorator\<close>

lemma sleeps_append: "sleeps (xs @ ys) = sleeps xs @ sleeps ys"
  by (induction xs) simp_all

lemma trace_emit: "trace (emit ev w) = trace w @ [ev]"
  by (simp add: emit_def)

lemma ncalls_emit: "ncalls (emit ev w) = ncalls w"
  by (simp add: emit_def)

lemma length_py_range: "length (py_range n) = nat n"
  by (simp add: py_range_def)

lemma py_range_2: "py_range 2 = [0, 1]"
  by (simp add: py_range_def numeral_2_eq_2)

text \<open>
  An accepted delay is slept, and a refused one leaves the world as it is.
\<close>

lemma time_sleep_accepted:
  assumes "accepted_delay d"
  shows "time_sleep d w = (Inr (), emit (Sleep d) w)"
proof -
  from assms obtain ns where ns: "sleep_timeout d = Inr ns" "ns \<le> 2 ^ 62"
    by (auto simp add: accepted_delay_def split: sum.splits)
  have "uint (monotonic w (length (trace w))) < 2 ^ 62"
    using uint_lt2p[of "monotonic w (length (trace w))"] by simp
  with ns(2) have "\<not> 2 ^ 63 \<le> uint (monotonic w (length (trace w))) + ns" by simp
  then show ?thesis by (simp add: time_sleep_def ns(1))
qed

lemma time_sleep_cases:
  "(\<exists>e. time_sleep d w = (Inl e, w)) \<or> time_sleep d w = (Inr (), emit (Sleep d) w)"
  by (simp add: time_sleep_def split: sum.splits)

lemma accepted_delay_Seconds: "accepted_delay (Seconds n) = (0 \<le> n \<and> n \<le> 4611686018)"
  by (auto simp add: accepted_delay_def sleep_timeout_def)

lemma time_sleep_2: "time_sleep (Seconds 2) w = (Inr (), emit (Sleep (Seconds 2)) w)"
  by (rule time_sleep_accepted) (simp add: accepted_delay_Seconds)

text \<open>
  While every call made inside the loop fails with a matched exception, the loop
  runs to its end and the result is that of the call after the loop.
\<close>

lemma wrapper_loop_scripted_all:
  assumes "accepted_delay D"
    and "\<forall>i<length as. \<exists>e. outs (ncalls w + i) = Inl e \<and> exceptions e"
  shows "fst (wrapper_loop T exceptions D (scripted outs) as w) = outs (ncalls w + length as)
    \<and> ncalls (snd (wrapper_loop T exceptions D (scripted outs) as w)) = ncalls w + length as + 1
    \<and> sleeps (trace (snd (wrapper_loop T exceptions D (scripted outs) as w)))
        = sleeps (trace w) @ replicate (length as) D"
  using assms
proof (induction as arbitrary: w)
  case Nil
  then show ?case by (simp add: scripted_def trace_emit ncalls_emit sleeps_append)
next
  case (Cons a as)
  from Cons.prems(2) obtain e where e: "outs (ncalls w) = Inl e" "exceptions e"
    by fastforce
  let ?w2 = "emit (Sleep D) (emit (LogException (a + 1) T) (w\<lparr>ncalls := Suc (ncalls w)\<rparr>))"
  have step: "wrapper_loop T exceptions D (scripted outs) (a # as) w
      = wrapper_loop T exceptions D (scripted outs) as ?w2"
    using e by (simp add: scripted_def time_sleep_accepted[OF Cons.prems(1)])
  have nc: "ncalls ?w2 = Suc (ncalls w)" by (simp add: ncalls_emit)
  have tr: "sleeps (trace ?w2) = sleeps (trace w) @ [D]"
    by (simp add: trace_emit sleeps_append)
  have "\<forall>i<length as. \<exists>e. outs (ncalls ?w2 + i) = Inl e \<and> exceptions e"
  proof (intro allI impI)
    fix i assume "i < length as"
    then have "Suc i < length (a # as)" by simp
    with Cons.prems(2) have "\<exists>e. outs (ncalls w + Suc i) = Inl e \<and> exceptions e" by blast
    then show "\<exists>e. outs (ncalls ?w2 + i) = Inl e \<and> exceptions e" by (simp add: nc)
  qed
  from Cons.IH[OF Cons.prems(1) this]
  show ?case unfolding step
    by (simp add: nc tr)
qed

text \<open>
  The first call whose outcome is a result, or an exception that is not matched,
  ends the loop with that outcome.
\<close>

lemma wrapper_loop_scripted_stop:
  assumes "accepted_delay D" and "k < length as"
    and "\<forall>i<k. \<exists>e. outs (ncalls w + i) = Inl e \<and> exceptions e"
    and "\<forall>e. outs (ncalls w + k) = Inl e \<longrightarrow> \<not> exceptions e"
  shows "fst (wrapper_loop T exceptions D (scripted outs) as w) = outs (ncalls w + k)
    \<and> ncalls (snd (wrapper_loop T exceptions D (scripted outs) as w)) = ncalls w + k + 1
    \<and> sleeps (trace (snd (wrapper_loop T exceptions D (scripted outs) as w)))
        = sleeps (trace w) @ replicate k D"
  using assms
proof (induction as arbitrary: w k)
  case Nil
  then show ?case by simp
next
  case (Cons a as)
  show ?case
  proof (cases k)
    case 0
    with Cons.prems(4) show ?thesis
      by (cases "outs (ncalls w)") (simp_all add: scripted_def)
  next
    case (Suc j)
    from Cons.prems(3) Suc obtain e where e: "outs (ncalls w) = Inl e" "exceptions e"
      by fastforce
    let ?w2 = "emit (Sleep D) (emit (LogException (a + 1) T) (w\<lparr>ncalls := Suc (ncalls w)\<rparr>))"
    have step: "wrapper_loop T exceptions D (scripted outs) (a # as) w
        = wrapper_loop T exceptions D (scripted outs) as ?w2"
      using e by (simp add: scripted_def time_sleep_accepted[OF Cons.prems(1)])
    have nc: "ncalls ?w2 = Suc (ncalls w)" by (simp add: ncalls_emit)
    have tr: "sleeps (trace ?w2) = sleeps (trace w) @ [D]"
      by (simp add: trace_emit sleeps_append)
    have a1: "j < length as" using Cons.prems(2) Suc by simp
    have a2: "\<forall>i<j. \<exists>e. outs (ncalls ?w2 + i) = Inl e \<and> exceptions e"
    proof (intro allI impI)
      fix i assume "i < j"
      then have "Suc i < k" using Suc by simp
      with Cons.prems(3) have "\<exists>e. outs (ncalls w + Suc i) = Inl e \<and> exceptions e" by blast
      then show "\<exists>e. outs (ncalls ?w2 + i) = Inl e \<and> exceptions e" by (simp add: nc)
    qed
    have a3: "\<forall>e. outs (ncalls ?w2 + j) = Inl e \<longrightarrow> \<not> exceptions e"
      using Cons.prems(4) Suc by (simp add: nc)
    from Cons.IH[OF Cons.prems(1) a1 a2 a3]
    show ?thesis unfolding step
      by (simp add: nc tr Suc)
  qed
qed

text \<open>
  Claim C3, as amended. A wrapped function that raises a matched (transient)
  exception on its first \<open>k < T\<close> calls and returns \<open>v\<close> on call \<open>k + 1\<close>: the
  wrapper with attempt ceiling \<open>T \<ge> 1\<close> and a delay \<open>D\<close> that \<^verbatim>\<open>time.sleep\<close>
  accepts (a timeout from 0 to \<open>2 ^ 62\<close> nanoseconds) returns \<open>v\<close>, the function
  has been called exactly \<open>k + 1\<close> times, and exactly \<open>k\<close> sleeps, each of length
  \<open>D\<close>, have been added to the trace.
\<close>

theorem retry_succeeds_after_k_failures:
  assumes "1 \<le> T" and "int k < T" and "accepted_delay D"
    and "\<forall>i<k. \<exists>e. outcomes i = Inl e \<and> exceptions e"
    and "outcomes k = Inr v"
    and "ncalls w = 0"
  shows "fst (retry T exceptions D (scripted outcomes) w) = Inr v
    \<and> ncalls (snd (retry T exceptions D (scripted outcomes) w)) = k + 1
    \<and> sleeps (trace (snd (retry T exceptions D (scripted outcomes) w)))
        = sleeps (trace w) @ replicate k D"
proof (cases "k < length (py_range (T - 1))")
  case True
  have "\<forall>e. outcomes (ncalls w + k) = Inl e \<longrightarrow> \<not> exceptions e"
    using assms(5,6) by simp
  moreover have "\<forall>i<k. \<exists>e. outcomes (ncalls w + i) = Inl e \<and> exceptions e"
    using assms(4,6) by simp
  ultimately show ?thesis
    using wrapper_loop_scripted_stop[OF assms(3) True, of outcomes w exceptions T] assms(5,6)
    by (simp add: retry_def)
next
  case False
  then have len: "length (py_range (T - 1)) = k"
    using assms(1,2) by (simp add: length_py_range)
  have "\<forall>i<length (py_range (T - 1)). \<exists>e. outcomes (ncalls w + i) = Inl e \<and> exceptions e"
    using assms(4,6) len by simp
  from wrapper_loop_scripted_all[OF assms(3) this, of T]
  show ?thesis using assms(5,6) len by (simp add: retry_def)
qed

theorem retry_succeeds_after_k_failures_witness:
  "fst (retry 3 transient (Seconds 5)
      (scripted (\<lambda>i. if i < 2 then Inl ProtocolError else Inr (42::int)))
      fresh_counting_world) = Inr 42
   \<and> ncalls (snd (retry 3 transient (Seconds 5)
        (scripted (\<lambda>i. if i < 2 then Inl ProtocolError else Inr (42::int)))
        fresh_counting_world)) = 3
   \<and> sleeps (trace (snd (retry 3 transient (Seconds 5)
        (scripted (\<lambda>i. if i < 2 then Inl ProtocolError else Inr (42::int)))
        fresh_counting_world))) = [Seconds 5, Seconds 5]"
  using retry_succeeds_after_k_failures[of 3 2 "Seconds 5"
      "\<lambda>i. if i < 2 then Inl ProtocolError else Inr (42::int)"
      transient 42 fresh_counting_world]
  by (simp add: transient_def fresh_counting_world_def numeral_2_eq_2 accepted_delay_Seconds)

text \<open>
  For a delay that \<^verbatim>\<open>time.sleep\<close> refuses the claim as stated fails. With a delay
  of \<open>10 ^ 30\<close> seconds and a function that raises a transient exception once and
  then returns 42, the sleep after the first call raises \<^verbatim>\<open>OverflowError\<close>, which
  leaves the wrapper: the function is called once, no sleep is performed and no
  value is returned.
\<close>

theorem retry_succeeds_after_k_failures_counterexample:
  "fst (retry 3 transient (Seconds (10 ^ 30))
      (scripted (\<lambda>i. if i < 1 then Inl ProtocolError else Inr (42::int)))
      fresh_counting_world) = Inl OverflowError
   \<and> ncalls (snd (retry 3 transient (Seconds (10 ^ 30))
        (scripted (\<lambda>i. if i < 1 then Inl ProtocolError else Inr (42::int)))
        fresh_counting_world)) = 1
   \<and> sleeps (trace (snd (retry 3 transient (Seconds (10 ^ 30))
        (scripted (\<lambda>i. if i < 1 then Inl ProtocolError else Inr (42::int)))
        fresh_counting_world))) = []"
  by (simp add: retry_def py_range_2 scripted_def time_sleep_def sleep_timeout_def
      transient_def fresh_counting_world_def emit_def)

text \<open>
  Claim C4, as amended. A wrapped function that raises a matched (transient)
  exception on every call: the wrapper with attempt ceiling \<open>T \<ge> 1\<close> and a delay
  \<open>D\<close> that \<^verbatim>\<open>time.sleep\<close> accepts (a timeout from 0 to \<open>2 ^ 62\<close> nanoseconds)
  calls it exactly \<open>T\<close> times, and the outcome of the wrapper is the outcome of the
  \<open>T\<close>-th call, an exception that reaches the caller; \<open>T - 1\<close> sleeps lie between
  the calls.
\<close>

theorem retry_always_transient:
  assumes "1 \<le> T" and "accepted_delay D"
    and "\<forall>i. \<exists>e. outcomes i = Inl e \<and> exceptions e"
    and "ncalls w = 0"
  shows "ncalls (snd (retry T exceptions D (scripted outcomes) w)) = nat T
    \<and> fst (retry T exceptions D (scripted outcomes) w) = outcomes (nat T - 1)
    \<and> (\<exists>e. outcomes (nat T - 1) = Inl e)
    \<and> sleeps (trace (snd (retry T exceptions D (scripted outcomes) w)))
        = sleeps (trace w) @ replicate (nat T - 1) D"
proof -
  have len: "length (py_range (T - 1)) = nat T - 1"
    using assms(1) by (simp add: length_py_range nat_diff_distrib)
  have "\<forall>i<length (py_range (T - 1)). \<exists>e. outcomes (ncalls w + i) = Inl e \<and> exceptions e"
    using assms(3) by simp
  from wrapper_loop_scripted_all[OF assms(2) this, of T]
  have "fst (retry T exceptions D (scripted outcomes) w) = outcomes (nat T - 1)"
    and "ncalls (snd (retry T exceptions D (scripted outcomes) w)) = nat T"
    and "sleeps (trace (snd (retry T exceptions D (scripted outcomes) w)))
        = sleeps (trace w) @ replicate (nat T - 1) D"
    using assms(1,4) len by (simp_all add: retry_def)
  moreover have "\<exists>e. outcomes (nat T - 1) = Inl e" using assms(3) by blast
  ultimately show ?thesis by simp
qed

theorem retry_always_transient_witness:
  "ncalls (snd (retry 3 transient (Seconds 5) (scripted (\<lambda>i. (Inl ProtocolError :: exc + int)))
      fresh_counting_world)) = 3
   \<and> fst (retry 3 transient (Seconds 5) (scripted (\<lambda>i. (Inl ProtocolError :: exc + int)))
      fresh_counting_world) = Inl ProtocolError
   \<and> sleeps (trace (snd (retry 3 transient (Seconds 5)
        (scripted (\<lambda>i. (Inl ProtocolError :: exc + int))) fresh_counting_world)))
      = [Seconds 5, Seconds 5]"
  using retry_always_transient[of 3 "Seconds 5" "\<lambda>i. (Inl ProtocolError :: exc + int)" transient
      fresh_counting_world]
  by (simp add: transient_def fresh_counting_world_def accepted_delay_Seconds numeral_2_eq_2)

text \<open>
  For a delay that \<^verbatim>\<open>time.sleep\<close> refuses the claim as stated fails. With the
  attempt ceiling 3, a delay of \<open>10 ^ 30\<close> seconds and a function that raises a
  transient exception on every call, the sleep after the first call raises
  \<^verbatim>\<open>OverflowError\<close>: the function is called once, not three times, and the
  exception that reaches the caller is not one raised by the function.
\<close>

theorem retry_always_transient_counterexample:
  "ncalls (snd (retry 3 transient (Seconds (10 ^ 30))
      (scripted (\<lambda>i. (Inl ProtocolError :: exc + int))) fresh_counting_world)) = 1
   \<and> fst (retry 3 transient (Seconds (10 ^ 30))
      (scripted (\<lambda>i. (Inl ProtocolError :: exc + int))) fresh_counting_world) = Inl OverflowError"
  by (simp add: retry_def py_range_2 scripted_def time_sleep_def sleep_timeout_def
      transient_def fresh_counting_world_def emit_def)

text \<open>
  Claim C5. A wrapped function whose first call raises an exception outside the
  matched set: the wrapper calls it exactly once, adds no sleep to the trace, and
  the exception reaches the caller. This holds for every attempt ceiling and delay.
\<close>

theorem retry_non_transient_first:
  assumes "outcomes 0 = Inl e" and "\<not> exceptions e" and "ncalls w = 0"
  shows "fst (retry T exceptions D (scripted outcomes) w) = Inl e
    \<and> ncalls (snd (retry T exceptions D (scripted outcomes) w)) = 1
    \<and> sleeps (trace (snd (retry T exceptions D (scripted outcomes) w))) = sleeps (trace w)"
  using assms by (cases "py_range (T - 1)")
    (auto simp add: retry_def scripted_def trace_emit ncalls_emit sleeps_append)

theorem retry_non_transient_first_witness:
  "fst (retry 3 transient (Seconds 5) (scripted (\<lambda>i. (Inl (KeyError ''k'') :: exc + int)))
      fresh_counting_world) = Inl (KeyError ''k'')
   \<and> ncalls (snd (retry 3 transient (Seconds 5) (scripted (\<lambda>i. (Inl (KeyError ''k'') :: exc + int)))
      fresh_counting_world)) = 1"
  using retry_non_transient_first[of "\<lambda>i. (Inl (KeyError ''k'') :: exc + int)" "KeyError ''k''" transient
      fresh_counting_world 3 "Seconds 5"]
  by (simp add: transient_def fresh_counting_world_def)

section \<open>Properties of the page count\<close>

text \<open>
  The rounded quotient is within half a unit of the last place of the exact one.
\<close>

lemma round_half_even_near:
  assumes "0 < b"
  shows "\<bar>real_of_int (round_half_even n b) - real_of_int n / real_of_int b\<bar> \<le> 1 / 2"
proof -
  define q where "q = n div b"
  define r where "r = n mod b"
  have n: "n = q * b + r" by (simp add: q_def r_def)
  have r: "0 \<le> r" "r < b" using assms by (simp_all add: r_def)
  have x: "real_of_int n / real_of_int b = real_of_int q + real_of_int r / real_of_int b"
    using assms by (simp add: n field_simps)
  have m: "round_half_even n b = (if 2 * r < b then q else if b < 2 * r then q + 1
         else if even q then q else q + 1)"
    by (simp add: round_half_even_def q_def r_def Let_def)
  define t where "t = real_of_int r / real_of_int b"
  have xt: "real_of_int n / real_of_int b = real_of_int q + t" by (simp add: x t_def)
  have t0: "0 \<le> t" and t1: "t \<le> 1" using assms r by (simp_all add: t_def)
  show ?thesis
  proof (cases "2 * r < b")
    case True
    then have "t \<le> 1 / 2" using assms by (simp add: t_def field_simps)
    moreover have "round_half_even n b = q" using True by (simp add: m)
    ultimately show ?thesis using t0 by (simp add: xt)
  next
    case False
    show ?thesis
    proof (cases "b < 2 * r")
      case True
      then have "1 / 2 \<le> t" using assms by (simp add: t_def field_simps)
      moreover have "round_half_even n b = q + 1" using True False by (simp add: m)
      ultimately show ?thesis using t1 by (simp add: xt)
    next
      case F2: False
      with False have "b = 2 * r" by simp
      then have "t = 1 / 2" using assms by (simp add: t_def)
      moreover have "round_half_even n b = q \<or> round_half_even n b = q + 1"
        using False F2 by (simp add: m)
      ultimately show ?thesis by (auto simp add: xt)
    qed
  qed
qed

lemma round_half_even_ceil:
  assumes "0 < b" and "0 < P" and "b < 2 * P"
  shows "\<lceil>real_of_int (round_half_even (a * P) b) / real_of_int P\<rceil>
       = \<lceil>real_of_int a / real_of_int b\<rceil>"
proof -
  define m where "m = round_half_even (a * P) b"
  define c where "c = \<lceil>real_of_int a / real_of_int b\<rceil>"
  define X where "X = real_of_int (a * P) / real_of_int b"
  define Y where "Y = real_of_int (c * P)"
  define Z where "Z = real_of_int ((c - 1) * P)"
  define h where "h = real_of_int P / real_of_int b"
  have H: "\<bar>real_of_int m - X\<bar> \<le> 1 / 2"
    unfolding m_def X_def by (rule round_half_even_near[OF assms(1)])
  have up: "real_of_int a / real_of_int b \<le> real_of_int c" by (simp add: c_def)
  have "real_of_int c - 1 < real_of_int a / real_of_int b" unfolding c_def by linarith
  then have "(real_of_int c - 1) * real_of_int b < real_of_int a"
    using assms(1) by (simp add: field_simps)
  then have "(c - 1) * b < a" by (metis of_int_1 of_int_diff of_int_less_iff of_int_mult)
  then have lo: "(c - 1) * b + 1 \<le> a" by simp
  have XY: "X \<le> Y"
  proof -
    have "X = (real_of_int a / real_of_int b) * real_of_int P"
      by (simp add: X_def)
    also have "\<dots> \<le> real_of_int c * real_of_int P"
      by (rule mult_right_mono) (use up assms(2) in simp_all)
    finally show ?thesis by (simp add: Y_def)
  qed
  from H XY have "real_of_int m \<le> Y + 1 / 2" by linarith
  then have mu: "m \<le> c * P" unfolding Y_def by linarith
  have ZX: "Z + h \<le> X"
  proof -
    have "((c - 1) * b + 1) * P \<le> a * P"
      using lo assms(2) by (simp only: mult_right_mono)
    then have "real_of_int (((c - 1) * b + 1) * P) \<le> real_of_int (a * P)"
      by (simp only: of_int_le_iff)
    then have "real_of_int (((c - 1) * b + 1) * P) / real_of_int b \<le> X"
      unfolding X_def using assms(1) by (simp add: divide_right_mono)
    moreover have "real_of_int (((c - 1) * b + 1) * P) / real_of_int b = Z + h"
      unfolding Z_def h_def using assms(1) by (simp add: field_simps)
    ultimately show ?thesis by simp
  qed
  have hh: "1 / 2 < h"
    unfolding h_def using assms by (simp add: field_simps)
  from ZX hh H have "Z < real_of_int m" by linarith
  then have ml: "(c - 1) * P < m" unfolding Z_def by (simp only: of_int_less_iff)
  have "real_of_int c - 1 < real_of_int m / real_of_int P"
  proof -
    have "real_of_int ((c - 1) * P) < real_of_int m"
      using ml by (simp only: of_int_less_iff)
    then have "(real_of_int c - 1) * real_of_int P < real_of_int m" by simp
    then show ?thesis using assms(2) by (simp add: field_simps)
  qed
  moreover have "real_of_int m / real_of_int P \<le> real_of_int c"
  proof -
    have "real_of_int m \<le> real_of_int (c * P)"
      using mu by (simp only: of_int_le_iff)
    then have "real_of_int m \<le> real_of_int c * real_of_int P" by simp
    then show ?thesis using assms(2) by (simp add: field_simps)
  qed
  ultimately have "\<lceil>real_of_int m / real_of_int P\<rceil> = c" by (rule ceiling_unique)
  then show ?thesis by (simp add: m_def c_def)
qed

lemma bitlen_pos: "0 < a \<Longrightarrow> 1 \<le> bitlen a"
  using bitlen_eq_zero_iff[of a] bitlen_nonneg[of a] by linarith

lemma bitlen_le_53: "0 < a \<Longrightarrow> a < 2 ^ 53 \<Longrightarrow> bitlen a \<le> 53"
proof -
  assume a: "0 < a" "a < 2 ^ 53"
  from bitlen_bounds[OF a(1)] a(2) have "(2::int) ^ nat (bitlen a - 1) < 2 ^ 53" by linarith
  then have "nat (bitlen a - 1) < 53" by (simp only: power_strict_increasing_iff one_less_numeral_iff semiring_norm)
  then show ?thesis by linarith
qed

lemma float_exponent_le:
  assumes "0 < a" and "0 < b"
  shows "scale2 b (float_exponent a b) \<le> scale2 a (- float_exponent a b)"
proof (cases "scale2 b (bitlen a - bitlen b) \<le> scale2 a (- (bitlen a - bitlen b))")
  case True
  then show ?thesis by (simp add: float_exponent_def Let_def)
next
  case False
  define d where "d = bitlen a - bitlen b"
  have e: "float_exponent a b = d - 1" using False by (simp add: float_exponent_def Let_def d_def)
  have la: "1 \<le> bitlen a" and lb: "1 \<le> bitlen b" using assms by (simp_all add: bitlen_pos)
  have A: "2 ^ nat (bitlen a - 1) \<le> a" using bitlen_bounds[OF assms(1)] by simp
  have B: "b < 2 ^ nat (bitlen b)" using bitlen_bounds[OF assms(2)] by simp
  show ?thesis
  proof (cases "1 \<le> d")
    case True
    have "b * 2 ^ nat (d - 1) \<le> 2 ^ nat (bitlen b) * 2 ^ nat (d - 1)"
      using B by (simp add: mult_right_mono)
    also have "\<dots> = 2 ^ (nat (bitlen b) + nat (d - 1))" by (simp add: power_add)
    also have "nat (bitlen b) + nat (d - 1) = nat (bitlen a - 1)"
      using True lb by (simp add: d_def nat_add_distrib[symmetric])
    finally have "b * 2 ^ nat (d - 1) \<le> a" using A by linarith
    then show ?thesis using True by (simp add: e scale2_def)
  next
    case F: False
    have "2 ^ nat (bitlen a - 1) * 2 ^ nat (1 - d) \<le> a * 2 ^ nat (1 - d)"
      using A by (simp add: mult_right_mono)
    moreover have "(2::int) ^ nat (bitlen a - 1) * 2 ^ nat (1 - d) = 2 ^ (nat (bitlen a - 1) + nat (1 - d))"
      by (simp add: power_add)
    moreover have "nat (bitlen a - 1) + nat (1 - d) = nat (bitlen b)"
      using F la by (simp add: d_def nat_add_distrib[symmetric])
    ultimately have "b \<le> a * 2 ^ nat (1 - d)" using B by simp
    then show ?thesis using F by (simp add: e scale2_def)
  qed
qed

lemma float_exponent_range:
  assumes "0 < a" "a < 2 ^ 53" "0 < b" "b < 2 ^ 53"
  shows "- 53 \<le> float_exponent a b \<and> float_exponent a b \<le> 52"
proof -
  have "1 \<le> bitlen a" "bitlen a \<le> 53" "1 \<le> bitlen b" "bitlen b \<le> 53"
    using assms by (simp_all add: bitlen_pos bitlen_le_53)
  then show ?thesis by (auto simp add: float_exponent_def Let_def)
qed

lemma divisor_below_spacing:
  assumes "0 < a" "a < 2 ^ 53" "0 < b" "float_exponent a b \<le> 52"
  shows "b < 2 * 2 ^ nat (52 - float_exponent a b)"
proof -
  define e where "e = float_exponent a b"
  have le: "scale2 b e \<le> scale2 a (- e)" unfolding e_def by (rule float_exponent_le[OF assms(1,3)])
  have e52: "e \<le> 52" using assms(4) by (simp add: e_def)
  have split: "(2::int) * 2 ^ nat (52 - e) = 2 ^ nat (53 - e)"
  proof -
    have "nat (53 - e) = Suc (nat (52 - e))" using e52 by linarith
    then show ?thesis by simp
  qed
  have "b < 2 ^ nat (53 - e)"
  proof (cases "0 \<le> e")
    case True
    then have "b * 2 ^ nat e \<le> a" using le by (simp add: scale2_def)
    then have "b * 2 ^ nat e < 2 ^ 53" using assms(2) by linarith
    moreover have "(2::int) ^ 53 = 2 ^ nat (53 - e) * 2 ^ nat e"
    proof -
      have "nat (53 - e) + nat e = 53" using True e52 by linarith
      then show ?thesis by (metis power_add)
    qed
    ultimately have "b * 2 ^ nat e < 2 ^ nat (53 - e) * 2 ^ nat e" by simp
    then show ?thesis by (simp only: mult_less_cancel_right) simp
  next
    case False
    then have "b \<le> a * 2 ^ nat (- e)" using le by (simp add: scale2_def)
    moreover have "a * 2 ^ nat (- e) < 2 ^ 53 * 2 ^ nat (- e)"
      using assms(2) by (simp add: mult_strict_right_mono)
    moreover have "(2::int) ^ 53 * 2 ^ nat (- e) = 2 ^ nat (53 - e)"
    proof -
      have "53 + nat (- e) = nat (53 - e)" using False by linarith
      then show ?thesis by (metis power_add)
    qed
    ultimately show ?thesis by linarith
  qed
  then show ?thesis using split by (simp add: e_def)
qed

text \<open>
  For a dividend and a divisor below \<open>2 ^ 53\<close> the rounding never crosses an
  integer, so that the ceiling of the double is the ceiling of the exact quotient.
\<close>

lemma truediv_pos_small:
  assumes "0 < a" "a < 2 ^ 53" "0 < b" "b < 2 ^ 53"
  shows "truediv_pos a b =
     Inr (round_half_even (a * 2 ^ nat (52 - float_exponent a b)) b, 52 - float_exponent a b)"
proof -
  define e where "e = float_exponent a b"
  define P :: int where "P = 2 ^ nat (52 - e)"
  define m where "m = round_half_even (a * P) b"
  have er: "- 53 \<le> e" "e \<le> 52" using float_exponent_range[OF assms] by (simp_all add: e_def)
  have P: "0 < P" "1 \<le> P" by (simp_all add: P_def)
  have mx: "max e (- 1022) = e" using er by simp
  have sb: "scale2 b (- (52 - e)) = b" using er by (simp add: scale2_def)
  have near: "\<bar>real_of_int m - real_of_int (a * P) / real_of_int b\<bar> \<le> 1 / 2"
    unfolding m_def by (rule round_half_even_near[OF assms(3)])
  have "real_of_int (a * P) / real_of_int b \<le> real_of_int (a * P)"
  proof -
    have "1 \<le> real_of_int b" using assms(3) by simp
    moreover have "0 \<le> real_of_int (a * P)" using assms(1) P by simp
    ultimately have "real_of_int (a * P) / real_of_int b \<le> real_of_int (a * P) / 1"
      by (intro divide_left_mono) simp_all
    then show ?thesis by simp
  qed
  with near have "real_of_int m \<le> real_of_int (a * P) + 1 / 2" by linarith
  then have "m \<le> a * P" by linarith
  moreover have "a * P < 2 ^ 53 * P" using assms(2) P by (simp add: mult_strict_right_mono)
  moreover have "(2::int) ^ 53 * P \<le> 2 ^ 1024 * P" using P by (simp add: mult_right_mono)
  ultimately have "m < 2 ^ 1024 * P" by linarith
  then have "\<not> scale2 (2 ^ 1024) (52 - e) \<le> scale2 m (- (52 - e))"
    using er by (simp add: scale2_def P_def)
  then show ?thesis
    unfolding truediv_pos_def Let_def e_def[symmetric] mx sb
    by (simp add: m_def P_def scale2_def)
qed

lemma math_ceil_as_ceiling:
  "0 \<le> s \<Longrightarrow> math_ceil (m, s) = \<lceil>real_of_int m / real_of_int (2 ^ nat s)\<rceil>"
proof -
  assume s: "0 \<le> s"
  have c: "\<lceil>real_of_int m / real_of_int (2 ^ nat s)\<rceil> = - (- m div 2 ^ nat s)"
    by (rule ceiling_divide_eq_div)
  show ?thesis
  proof (cases "s = 0")
    case True
    then show ?thesis by (simp add: math_ceil_def scale2_def)
  next
    case False
    with s have "\<not> s \<le> 0" by simp
    then show ?thesis unfolding c by (simp add: math_ceil_def)
  qed
qed

lemma page_count_exact:
  assumes "0 \<le> stop" "stop + 1 < 2 ^ 53" "0 < page_size" "page_size < 2 ^ 53"
  shows "page_count 0 stop page_size = Inr \<lceil>real_of_int (stop + 1) / real_of_int page_size\<rceil>"
proof -
  define a where "a = stop + 1"
  define e where "e = float_exponent a page_size"
  have a: "0 < a" "a < 2 ^ 53" using assms by (simp_all add: a_def)
  have er: "- 53 \<le> e" "e \<le> 52"
    using float_exponent_range[OF a assms(3,4)] by (simp_all add: e_def)
  have sp: "page_size < 2 * 2 ^ nat (52 - e)"
    unfolding e_def by (rule divisor_below_spacing[OF a assms(3)]) (use er in \<open>simp add: e_def\<close>)
  have td: "py_truediv a page_size = Inr (round_half_even (a * 2 ^ nat (52 - e)) page_size, 52 - e)"
    using a assms(3,4) truediv_pos_small[OF a assms(3,4)] by (simp add: py_truediv_def e_def)
  have "math_ceil (round_half_even (a * 2 ^ nat (52 - e)) page_size, 52 - e)
      = \<lceil>real_of_int (round_half_even (a * 2 ^ nat (52 - e)) page_size) / real_of_int (2 ^ nat (52 - e))\<rceil>"
    by (rule math_ceil_as_ceiling) (use er in simp)
  also have "\<dots> = \<lceil>real_of_int a / real_of_int page_size\<rceil>"
    by (rule round_half_even_ceil[OF assms(3) _ sp]) simp
  finally show ?thesis by (simp add: page_count_def td a_def[symmetric])
qed

section \<open>Properties of the pagination driver\<close>

lemma page_calls_emit: "page_calls (emit ev w) = page_calls w"
  by (simp add: emit_def)

text \<open>
  Inside the bounds of the page count the log record is formatted, the range has
  a length and the progress bar is drawn.
\<close>

lemma str_accepts:
  assumes "\<bar>n\<bar> < 2 ^ k" and "k \<le> 4300"
  shows "\<not> str_refuses n"
proof -
  have "(2::int) ^ k \<le> 10 ^ k" by (rule power_mono) simp_all
  also have "\<dots> \<le> 10 ^ 4300" by (rule power_increasing[OF assms(2)]) simp
  finally have "(2::int) ^ k \<le> 10 ^ 4300" .
  with assms(1) have "\<bar>n\<bar> < 10 ^ 4300" by (rule less_le_trans)
  then show ?thesis unfolding str_refuses_def by (simp only: not_le)
qed

lemma tqdm_display_safe:
  assumes "bar_total * \<bar>unit_scale\<bar> < 2 ^ 1023"
  shows "tqdm_display w bar_total unit_scale n = None"
  unfolding tqdm_display_def using assms by (simp only: if_True)

lemma ceiling_quotient_bounds:
  assumes "0 \<le> a" and "0 < b"
  shows "0 \<le> \<lceil>real_of_int a / real_of_int b\<rceil> \<and> \<lceil>real_of_int a / real_of_int b\<rceil> \<le> a"
proof -
  have "0 \<le> real_of_int a / real_of_int b" using assms by simp
  then have l: "0 \<le> \<lceil>real_of_int a / real_of_int b\<rceil>" by (simp add: zero_le_ceiling)
  have "1 \<le> real_of_int b" using assms(2) by simp
  then have "real_of_int a * 1 \<le> real_of_int a * real_of_int b"
    using assms(1) by (intro mult_left_mono) simp_all
  then have "real_of_int a / real_of_int b \<le> real_of_int a"
    using assms(2) by (simp add: field_simps)
  then have "\<lceil>real_of_int a / real_of_int b\<rceil> \<le> a" by (simp add: ceiling_le_iff)
  with l show ?thesis by simp
qed

lemma pages_within_bar:
  fixes n page_size :: int
  assumes "0 \<le> n" and "n < 2 ^ 53" and "0 < page_size" and "page_size < 2 ^ 53"
  shows "max 0 n * \<bar>page_size\<bar> < 2 ^ 1023"
proof -
  have "n * page_size \<le> 2 ^ 53 * 2 ^ 53" using assms by (intro mult_mono) simp_all
  also have "\<dots> = (2::int) ^ 106" by (simp only: power_add[symmetric]) simp
  also have "\<dots> < 2 ^ 1023" by (rule power_strict_increasing) simp_all
  finally have "n * page_size < 2 ^ 1023" .
  moreover have "max 0 n = n" using assms(1) by simp
  moreover have "\<bar>page_size\<bar> = page_size" using assms(3) by simp
  ultimately show ?thesis by (simp only:)
qed

lemma fetch_pages_mock:
  assumes "bar_total * \<bar>page_size\<bar> < 2 ^ 1023"
  shows "fetch_pages (mock_page pages) start page_size bar_total idxs acc w =
     (Inr (acc @ concat (map pages [length (page_calls w)..<length (page_calls w) + length idxs])),
      w\<lparr>page_calls := page_calls w @ map (\<lambda>p. (start, page_size, p)) idxs\<rparr>)"
proof (induction idxs arbitrary: acc w)
  case Nil
  then show ?case by simp
next
  case (Cons p idxs)
  define n where "n = length (page_calls w)"
  define w1 where "w1 = w\<lparr>page_calls := page_calls w @ [(start, page_size, p)]\<rparr>"
  have step: "fetch_pages (mock_page pages) start page_size bar_total (p # idxs) acc w
      = fetch_pages (mock_page pages) start page_size bar_total idxs (acc @ pages n) w1"
    by (simp add: mock_page_def n_def w1_def tqdm_display_safe[OF assms])
  have len: "length (page_calls w1) = Suc n" by (simp add: w1_def n_def)
  have ih: "fetch_pages (mock_page pages) start page_size bar_total idxs (acc @ pages n) w1 =
     (Inr ((acc @ pages n) @ concat (map pages [Suc n..<Suc n + length idxs])),
      w1\<lparr>page_calls := page_calls w1 @ map (\<lambda>p. (start, page_size, p)) idxs\<rparr>)"
    using Cons.IH[of "acc @ pages n" w1] by (simp only: len)
  have "[n..<Suc n + length idxs] = n # [Suc n..<Suc n + length idxs]"
    by (rule upt_conv_Cons) simp
  moreover have "n + length (p # idxs) = Suc n + length idxs" by simp
  ultimately have up: "[n..<n + length (p # idxs)] = n # [Suc n..<Suc n + length idxs]"
    by (simp only:)
  have upd: "w1\<lparr>page_calls := page_calls w1 @ map (\<lambda>p. (start, page_size, p)) idxs\<rparr>
      = w\<lparr>page_calls := page_calls w @ map (\<lambda>p. (start, page_size, p)) (p # idxs)\<rparr>"
    by (simp add: w1_def)
  show ?case unfolding step ih upd n_def[symmetric] up by simp
qed

text \<open>
  The driver over a count fetcher that returns a total and the mock page fetcher.
\<close>

lemma driver_mock_pages:
  assumes "count_fetcher w = (Inr total_count, w1)"
    and "page_count 0 total_count page_size = Inr n" and "page_calls w1 = []"
    and "\<not> str_refuses (total_count + 1)" and "\<not> str_refuses page_size"
    and "n < 2 ^ 63" and "max 0 n * \<bar>page_size\<bar> < 2 ^ 1023"
  shows "get_problems_data_with count_fetcher (mock_page pages) page_size w =
     (Inr (concat (map pages [0..<nat n])),
      (emit (LogInfo (total_count + 1) page_size) w1)
        \<lparr>page_calls := map (\<lambda>i. (0, page_size, int i)) [0..<nat n]\<rparr>)"
  using assms(1-6)
  by (simp add: get_problems_data_with_def fetch_pages_mock[OF assms(7)]
      tqdm_display_safe[OF assms(7)] page_calls_emit py_range_def Let_def comp_def)

lemma driver_mock:
  assumes "page_count 0 total_count page_size = Inr n" and "page_calls w = []"
    and "\<not> str_refuses (total_count + 1)" and "\<not> str_refuses page_size"
    and "n < 2 ^ 63" and "max 0 n * \<bar>page_size\<bar> < 2 ^ 1023"
  shows "get_problems_data_with (mock_count total_count) (mock_page pages) page_size w =
     (Inr (concat (map pages [0..<nat n])),
      (emit (LogInfo (total_count + 1) page_size) w)
        \<lparr>page_calls := map (\<lambda>i. (0, page_size, int i)) [0..<nat n]\<rparr>)"
  by (rule driver_mock_pages[where count_fetcher = "mock_count total_count" and w = w, OF _ assms])
    (simp add: mock_count_def)

lemma driver_mock_bounded:
  assumes "0 \<le> total_count" and "total_count + 1 < 2 ^ 53"
    and "0 < page_size" and "page_size < 2 ^ 53"
    and "page_count 0 total_count page_size = Inr n"
    and "count_fetcher w = (Inr total_count, w1)" and "page_calls w1 = []"
  shows "get_problems_data_with count_fetcher (mock_page pages) page_size w =
     (Inr (concat (map pages [0..<nat n])),
      (emit (LogInfo (total_count + 1) page_size) w1)
        \<lparr>page_calls := map (\<lambda>i. (0, page_size, int i)) [0..<nat n]\<rparr>)"
proof -
  have n: "n = \<lceil>real_of_int (total_count + 1) / real_of_int page_size\<rceil>"
    using page_count_exact[OF assms(1-4)] assms(5) by simp
  have "0 \<le> total_count + 1" using assms(1) by simp
  from ceiling_quotient_bounds[OF this assms(3)]
  have n0: "0 \<le> n" and n1: "n \<le> total_count + 1" by (simp_all add: n)
  have n53: "n < 2 ^ 53" using n1 assms(2) by simp
  have "(2::int) ^ 53 < 2 ^ 63" by (rule power_strict_increasing) simp_all
  with n53 have n63: "n < 2 ^ 63" by (rule less_trans)
  have s1: "\<not> str_refuses (total_count + 1)"
    by (rule str_accepts[of _ 53]) (use assms(1,2) in simp_all)
  have s2: "\<not> str_refuses page_size"
    by (rule str_accepts[of _ 53]) (use assms(3,4) in simp_all)
  show ?thesis
    by (rule driver_mock_pages[where count_fetcher = count_fetcher and w = w,
          OF assms(6,5,7) s1 s2 n63 pages_within_bar[OF n0 n53 assms(3,4)]])
qed

lemma get_problems_count_body_answer:
  assumes "environ w ''LEETCODE_SESSION_ID'' = Some sid"
    and "csrf_service w (trace w) sid = Inr tok"
    and "graphql_service w (trace w @ [NetCsrf sid, Sleep (Seconds 2)]) (session_client sid tok)
          count_request = Inr resp"
    and "data resp = Some d" and "problemset_question_list d = Some ql"
  shows "get_problems_count_body w =
     (Inr (or_zero (total_num ql)),
      w\<lparr>trace := trace w @ [NetCsrf sid, Sleep (Seconds 2),
                             NetGraphql (session_client sid tok) count_request]\<rparr>)"
  using assms
  by (simp add: get_problems_count_body_def get_leetcode_api_client_def get_csrf_cookie_def
      time_sleep_2 graphql_post_def emit_def)

lemma get_problems_count_answer:
  assumes "environ w ''LEETCODE_SESSION_ID'' = Some sid"
    and "csrf_service w (trace w) sid = Inr tok"
    and "graphql_service w (trace w @ [NetCsrf sid, Sleep (Seconds 2)]) (session_client sid tok)
          count_request = Inr resp"
    and "data resp = Some d" and "problemset_question_list d = Some ql"
  shows "get_problems_count w =
     (Inr (or_zero (total_num ql)),
      w\<lparr>trace := trace w @ [NetCsrf sid, Sleep (Seconds 2),
                             NetGraphql (session_client sid tok) count_request]\<rparr>)"
  by (simp add: get_problems_count_def retry_def py_range_2 get_problems_count_body_answer[OF assms])

lemma page_count_one:
  assumes "0 < page_size" "page_size < 2 ^ 53"
  shows "page_count 0 0 page_size = Inr 1"
proof -
  have "page_count 0 0 page_size = Inr \<lceil>real_of_int (0 + 1) / real_of_int page_size\<rceil>"
    by (rule page_count_exact) (use assms in simp_all)
  moreover have "\<lceil>real_of_int (0 + 1) / real_of_int page_size\<rceil> = 1"
    by (rule ceiling_unique) (use assms in simp_all)
  ultimately show ?thesis by simp
qed

lemma page_count_tiny_quotient: "page_count 0 0 (2 ^ 1100) = Inr 0"
  by code_simp

lemma page_count_3_2: "page_count 0 3 2 = Inr 2"
  by code_simp

text \<open>
  Claim C1, as amended. When the total-count field of the count response is null,
  the count fetcher returns 0; with that total and a page size from 1 to below
  \<open>2 ^ 53\<close> the driver calls the page fetcher exactly once, for page 0
  (the page count is \<open>ceil ((0 + 1) / page_size) = 1\<close>).
\<close>

theorem null_total_fetches_one_page:
  fixes w :: mock_world
  assumes "environ w ''LEETCODE_SESSION_ID'' = Some sid"
    and "csrf_service w (trace w) sid = Inr tok"
    and "graphql_service w (trace w @ [NetCsrf sid, Sleep (Seconds 2)]) (session_client sid tok)
          count_request = Inr resp"
    and "data resp = Some d" and "problemset_question_list d = Some ql"
    and "total_num ql = None"
    and "0 < page_size" and "page_size < 2 ^ 53"
    and "page_calls w = []"
  shows "fst (get_problems_count w) = Inr 0
    \<and> page_calls (snd (get_problems_data_with get_problems_count (mock_page pages) page_size w))
        = [(0, page_size, 0)]"
proof -
  have c: "get_problems_count w =
     (Inr 0, w\<lparr>trace := trace w @ [NetCsrf sid, Sleep (Seconds 2),
                                   NetGraphql (session_client sid tok) count_request]\<rparr>)"
    using get_problems_count_answer[OF assms(1-5)] assms(6) by (simp add: or_zero_def)
  have p: "page_count 0 0 page_size = Inr 1" by (rule page_count_one[OF assms(7,8)])
  have "page_calls (w\<lparr>trace := trace w @ [NetCsrf sid, Sleep (Seconds 2),
          NetGraphql (session_client sid tok) count_request]\<rparr>) = []"
    using assms(9) by simp
  from driver_mock_bounded[where count_fetcher = get_problems_count and w = w and pages = pages,
      OF _ _ assms(7,8) p c this]
  show ?thesis by (simp add: c)
qed

theorem null_total_fetches_one_page_witness:
  "fst (get_problems_count null_total_world) = Inr 0
    \<and> page_calls (snd (get_problems_data_with get_problems_count (mock_page (\<lambda>i. [])) 300
          null_total_world)) = [(0, 300, 0)]"
  using null_total_fetches_one_page[of null_total_world "''session''" "''token''"
      "\<lparr>data = Some \<lparr>problemset_question_list = Some \<lparr>total_num = None, questions = None\<rparr>\<rparr>\<rparr>"
      "\<lparr>problemset_question_list = Some \<lparr>total_num = None, questions = None\<rparr>\<rparr>"
      "\<lparr>total_num = None, questions = None\<rparr>" 300 "\<lambda>i. []"]
  by (simp add: null_total_world_def)

text \<open>
  The claim as stated, zero pages for a total of 0, fails at the default page size:
  the count fetcher returns 0 and the page fetcher is called.
\<close>

theorem null_total_zero_pages_counterexample:
  "fst (get_problems_count null_total_world) = Inr 0
    \<and> page_calls (snd (get_problems_data_with get_problems_count (mock_page (\<lambda>i. [])) 300
          null_total_world)) \<noteq> []"
proof -
  have c: "get_problems_count null_total_world =
     (Inr 0, null_total_world\<lparr>trace := trace null_total_world @
        [NetCsrf ''session'', Sleep (Seconds 2),
         NetGraphql (session_client ''session'' ''token'') count_request]\<rparr>)"
    using get_problems_count_answer[of null_total_world "''session''" "''token''"
      "\<lparr>data = Some \<lparr>problemset_question_list = Some \<lparr>total_num = None, questions = None\<rparr>\<rparr>\<rparr>"
      "\<lparr>problemset_question_list = Some \<lparr>total_num = None, questions = None\<rparr>\<rparr>"
      "\<lparr>total_num = None, questions = None\<rparr>"]
    by (simp add: null_total_world_def or_zero_def)
  have p: "page_count 0 0 300 = Inr 1" by (rule page_count_one) simp_all
  have "page_calls (null_total_world\<lparr>trace := trace null_total_world @
        [NetCsrf ''session'', Sleep (Seconds 2),
         NetGraphql (session_client ''session'' ''token'') count_request]\<rparr>) = []"
    by (simp add: null_total_world_def)
  from driver_mock_bounded[where count_fetcher = get_problems_count and w = null_total_world
      and pages = "\<lambda>i. []", OF _ _ _ _ p c this]
  show ?thesis by (simp add: c)
qed

text \<open>
  Claim C2, as amended. For a total \<open>0 \<le> total\<close> with \<open>total + 1 < 2 ^ 53\<close> and a
  page size \<open>0 < page_size < 2 ^ 53\<close>, the driver calls the page fetcher exactly
  \<open>ceil ((total + 1) / page_size)\<close> times (every call of the page fetcher
  returning a list).
\<close>

theorem driver_page_fetcher_invocations:
  assumes "0 \<le> total_count" and "total_count + 1 < 2 ^ 53"
    and "0 < page_size" and "page_size < 2 ^ 53"
    and "page_calls w = []"
  shows "length (page_calls (snd (get_problems_data_with (mock_count total_count) (mock_page pages)
            page_size w)))
       = nat \<lceil>real_of_int (total_count + 1) / real_of_int page_size\<rceil>"
proof -
  have "mock_count total_count w = (Inr total_count, w)" by (simp add: mock_count_def)
  from driver_mock_bounded[where count_fetcher = "mock_count total_count" and w = w
      and pages = pages, OF assms(1-4) page_count_exact[OF assms(1-4)] this assms(5)]
  show ?thesis by simp
qed

theorem driver_page_fetcher_invocations_witness:
  "length (page_calls (snd (get_problems_data_with (mock_count 3000) (mock_page (\<lambda>i. []))
            300 fresh_mock_world))) = 11"
  using driver_page_fetcher_invocations[of 3000 300 fresh_mock_world "\<lambda>i. []"]
  by (simp add: fresh_mock_world_def)

text \<open>
  Without the bounds the claim fails: for a total of 0 and the page size
  \<open>2 ^ 1100\<close> the float quotient is \<open>0.0\<close>, no page is fetched, and the exact
  ceiling is 1.
\<close>

theorem driver_page_fetcher_invocations_counterexample:
  "length (page_calls (snd (get_problems_data_with (mock_count 0) (mock_page (\<lambda>i. []))
            (2 ^ 1100) fresh_mock_world)))
     \<noteq> nat \<lceil>real_of_int (0 + 1) / real_of_int (2 ^ 1100)\<rceil>"
proof -
  have h: "page_calls fresh_mock_world = []" by (simp add: fresh_mock_world_def)
  have s1: "\<not> str_refuses (0 + 1)" by (rule str_accepts[of _ 1]) simp_all
  have s2: "\<not> str_refuses (2 ^ 1100)" by (rule str_accepts[of _ 1101]) simp_all
  from driver_mock[OF page_count_tiny_quotient h s1 s2]
  have l: "length (page_calls (snd (get_problems_data_with (mock_count 0) (mock_page (\<lambda>i. []))
            (2 ^ 1100) fresh_mock_world))) = 0"
    by simp
  have "\<lceil>real_of_int (0 + 1) / real_of_int (2 ^ 1100)\<rceil> = 1"
    by (rule ceiling_unique) simp_all
  then show ?thesis unfolding l by simp
qed

text \<open>
  Claim C7. When the page fetcher returns the lists \<open>pages 0\<close>, \<open>pages 1\<close>, ... at its
  successive calls, the driver returns their concatenation in call order, the calls
  are made for the page indices \<open>0, 1, ..., n - 1\<close> in increasing order, and the
  length of the result is the sum of the lengths of the pages. Here \<open>n\<close> is the page
  count that the driver computes, for a total \<open>0 \<le> total\<close> with
  \<open>total + 1 < 2 ^ 53\<close> and a page size \<open>0 < page_size < 2 ^ 53\<close>: inside these
  bounds the driver returns.
\<close>

theorem driver_concatenates_pages:
  assumes "page_count 0 total_count page_size = Inr n"
    and "0 \<le> total_count" and "total_count + 1 < 2 ^ 53"
    and "0 < page_size" and "page_size < 2 ^ 53"
    and "page_calls w = []"
  shows "fst (get_problems_data_with (mock_count total_count) (mock_page pages) page_size w)
       = Inr (concat (map pages [0..<nat n]))
    \<and> page_calls (snd (get_problems_data_with (mock_count total_count) (mock_page pages) page_size w))
       = map (\<lambda>i. (0, page_size, int i)) [0..<nat n]
    \<and> length (concat (map pages [0..<nat n])) = (\<Sum>i<nat n. length (pages i))"
proof -
  have "length (concat (map pages [0..<nat n])) = sum_list (map (\<lambda>i. length (pages i)) [0..<nat n])"
    by (simp add: length_concat comp_def)
  also have "\<dots> = (\<Sum>i<nat n. length (pages i))"
    by (simp add: interv_sum_list_conv_sum_set_nat atLeast0LessThan)
  finally have l: "length (concat (map pages [0..<nat n])) = (\<Sum>i<nat n. length (pages i))" .
  have "mock_count total_count w = (Inr total_count, w)" by (simp add: mock_count_def)
  from driver_mock_bounded[where count_fetcher = "mock_count total_count" and w = w
      and pages = pages, OF assms(2-5) assms(1) this assms(6)] l
  show ?thesis by simp
qed

theorem driver_concatenates_pages_witness:
  "fst (get_problems_data_with (mock_count 3)
          (mock_page (\<lambda>i. if i = 0 then [plain_question ''1'' ''Two Sum'',
                                          plain_question ''2'' ''Add Two Numbers'']
                          else [plain_question ''3'' ''Longest Substring'']))
          2 fresh_mock_world)
     = Inr [plain_question ''1'' ''Two Sum'', plain_question ''2'' ''Add Two Numbers'',
            plain_question ''3'' ''Longest Substring'']
   \<and> page_calls (snd (get_problems_data_with (mock_count 3)
          (mock_page (\<lambda>i. if i = 0 then [plain_question ''1'' ''Two Sum'',
                                          plain_question ''2'' ''Add Two Numbers'']
                          else [plain_question ''3'' ''Longest Substring'']))
          2 fresh_mock_world))
     = [(0, 2, 0), (0, 2, 1)]"
proof -
  have h: "page_calls fresh_mock_world = []" by (simp add: fresh_mock_world_def)
  have u: "[0..<nat 2] = [0, 1]" by (simp add: upt_rec)
  have b: "(0::int) \<le> 3" "(3::int) + 1 < 2 ^ 53" "(0::int) < 2" "(2::int) < 2 ^ 53" by simp_all
  show ?thesis
    using driver_concatenates_pages[OF page_count_3_2 b h,
        of "\<lambda>i. if i = 0 then [plain_question ''1'' ''Two Sum'',
                                 plain_question ''2'' ''Add Two Numbers'']
                 else [plain_question ''3'' ''Longest Substring'']"]
    unfolding u by simp
qed

section \<open>Properties of the page fetcher\<close>

text \<open>
  Every call of the wrapped function, and so the decorated function, only appends to
  the trace, and a property of the events of the single calls that also holds of
  the log records and sleeps of the decorator holds of all the events it appends.
\<close>

lemma body_events:
  "\<exists>evs. trace (snd (get_problems_data_page_body offset page_size page w)) = trace w @ evs
     \<and> (\<forall>ev\<in>set evs. \<forall>c q. ev = NetGraphql c q \<longrightarrow> q = page_request offset page_size page)"
  by (auto simp add: get_problems_data_page_body_def get_leetcode_api_client_def
      get_csrf_cookie_def time_sleep_2 graphql_post_def emit_def
      split: option.splits sum.splits prod.splits)

lemma wrapper_loop_events:
  assumes f: "\<And>w. \<exists>evs. trace (snd (f w)) = trace w @ evs \<and> (\<forall>ev\<in>set evs. P ev)"
    and P: "\<And>a b. P (LogException a b)" "\<And>d. P (Sleep d)" "\<And>s. P (LogError s)"
  shows "\<exists>evs. trace (snd (wrapper_loop T ex D f as w)) = trace w @ evs \<and> (\<forall>ev\<in>set evs. P ev)"
proof (induction as arbitrary: w)
  case Nil
  from f[of "emit (LogError ''Last try'') w"] obtain evs where
    "trace (snd (f (emit (LogError ''Last try'') w))) = trace (emit (LogError ''Last try'') w) @ evs"
    "\<forall>ev\<in>set evs. P ev" by blast
  then have "trace (snd (wrapper_loop T ex D f [] w)) = trace w @ (LogError ''Last try'' # evs)
      \<and> (\<forall>ev\<in>set (LogError ''Last try'' # evs). P ev)"
    using P(3) by (simp add: trace_emit)
  then show ?case by blast
next
  case (Cons a as)
  obtain r w1 where fw: "f w = (r, w1)" by (cases "f w")
  from f[of w] fw obtain evs1 where e1: "trace w1 = trace w @ evs1" "\<forall>ev\<in>set evs1. P ev"
    by auto
  show ?case
  proof (cases r)
    case (Inr v)
    then show ?thesis using fw e1 by auto
  next
    case (Inl e)
    show ?thesis
    proof (cases "ex e")
      case False
      then have "wrapper_loop T ex D f (a # as) w = (Inl e, w1)"
        using fw Inl by simp
      then show ?thesis using e1 by auto
    next
      case True
      let ?w1 = "emit (LogException (a + 1) T) w1"
      from time_sleep_cases[of D ?w1] show ?thesis
      proof
        assume "\<exists>e2. time_sleep D ?w1 = (Inl e2, ?w1)"
        then obtain e2 where "time_sleep D ?w1 = (Inl e2, ?w1)" by blast
        then have "wrapper_loop T ex D f (a # as) w = (Inl e2, ?w1)"
          using fw Inl True by simp
        then have "trace (snd (wrapper_loop T ex D f (a # as) w)) = trace w @ (evs1 @ [LogException (a + 1) T])"
          using e1 by (simp add: trace_emit)
        moreover have "\<forall>ev\<in>set (evs1 @ [LogException (a + 1) T]). P ev" using e1 P(1) by auto
        ultimately show ?thesis by blast
      next
        assume ts: "time_sleep D ?w1 = (Inr (), emit (Sleep D) ?w1)"
        let ?w2 = "emit (Sleep D) ?w1"
        have step: "wrapper_loop T ex D f (a # as) w = wrapper_loop T ex D f as ?w2"
          using fw Inl True ts by simp
        from Cons.IH[of ?w2] obtain evs2 where
          e2: "trace (snd (wrapper_loop T ex D f as ?w2)) = trace ?w2 @ evs2" "\<forall>ev\<in>set evs2. P ev"
          by blast
        have "trace ?w2 = trace w @ evs1 @ [LogException (a + 1) T, Sleep D]"
          using e1 by (simp add: trace_emit)
        with e2 have "trace (snd (wrapper_loop T ex D f as ?w2))
            = trace w @ (evs1 @ [LogException (a + 1) T, Sleep D] @ evs2)"
          by simp
        then have "trace (snd (wrapper_loop T ex D f (a # as) w))
            = trace w @ (evs1 @ [LogException (a + 1) T, Sleep D] @ evs2)"
          by (simp only: step)
        moreover have "\<forall>ev\<in>set (evs1 @ [LogException (a + 1) T, Sleep D] @ evs2). P ev"
          using e1 e2 P by auto
        ultimately show ?thesis by blast
      qed
    qed
  qed
qed

lemma page_fetcher_events:
  "\<exists>evs. trace (snd (get_problems_data_page offset page_size page w)) = trace w @ evs
     \<and> (\<forall>ev\<in>set evs. \<forall>c q. ev = NetGraphql c q \<longrightarrow> q = page_request offset page_size page)"
  unfolding get_problems_data_page_def retry_def
  by (rule wrapper_loop_events) (simp_all add: body_events)

lemma window_page_request:
  "window (page_request offset page_size page)
     = {offset + page * page_size ..< offset + (page + 1) * page_size}"
  by (simp add: window_def page_request_def algebra_simps)

lemma windows_disjoint:
  assumes "0 < page_size" and "i < j"
  shows "window (page_request offset page_size i) \<inter> window (page_request offset page_size j) = {}"
proof -
  have "i + 1 \<le> j" using assms(2) by simp
  then have "(i + 1) * page_size \<le> j * page_size" using assms(1) by (simp add: mult_right_mono)
  then show ?thesis unfolding window_page_request by auto
qed

lemma wrapper_loop_extends_first_call:
  assumes f: "\<And>w. \<exists>evs. trace (snd (f w)) = trace w @ evs"
  shows "\<exists>evs. trace (snd (wrapper_loop T ex D f (a # as) w)) = trace (snd (f w)) @ evs"
proof -
  obtain r w1 where fw: "f w = (r, w1)" by (cases "f w")
  have g: "\<And>w. \<exists>evs. trace (snd (f w)) = trace w @ evs \<and> (\<forall>ev\<in>set evs. True)"
    using f by simp
  let ?w1 = "emit (LogException (a + 1) T) w1"
  show ?thesis
  proof (cases "\<exists>e. r = Inl e \<and> ex e \<and> time_sleep D ?w1 = (Inr (), emit (Sleep D) ?w1)")
    case True
    then obtain e where e: "r = Inl e" "ex e"
      and ts: "time_sleep D ?w1 = (Inr (), emit (Sleep D) ?w1)" by blast
    let ?w2 = "emit (Sleep D) ?w1"
    have step: "wrapper_loop T ex D f (a # as) w = wrapper_loop T ex D f as ?w2"
      using fw e ts by simp
    from wrapper_loop_events[of f "\<lambda>ev. True" T ex D as ?w2, OF g]
    obtain evs where "trace (snd (wrapper_loop T ex D f as ?w2)) = trace ?w2 @ evs" by auto
    then have "trace (snd (wrapper_loop T ex D f (a # as) w))
        = trace (snd (f w)) @ ([LogException (a + 1) T, Sleep D] @ evs)"
      by (simp only: step) (simp add: fw trace_emit)
    then show ?thesis by blast
  next
    case False
    show ?thesis
    proof (cases r)
      case (Inr v)
      then show ?thesis using fw by simp
    next
      case (Inl e)
      show ?thesis
      proof (cases "ex e")
        case False
        then show ?thesis using fw Inl by simp
      next
        case True
        with False Inl time_sleep_cases[of D ?w1]
        obtain e2 where "time_sleep D ?w1 = (Inl e2, ?w1)" by blast
        then have "wrapper_loop T ex D f (a # as) w = (Inl e2, ?w1)"
          using fw Inl True by simp
        then have "trace (snd (wrapper_loop T ex D f (a # as) w))
            = trace (snd (f w)) @ [LogException (a + 1) T]"
          by (simp add: fw trace_emit)
        then show ?thesis by blast
      qed
    qed
  qed
qed

lemma body_trace_grows:
  "\<exists>evs. trace (snd (get_problems_data_page_body offset page_size page w)) = trace w @ evs"
  using body_events[of offset page_size page w] by blast

lemma body_posts_request:
  assumes "environ w ''LEETCODE_SESSION_ID'' = Some sid"
    and "csrf_service w (trace w) sid = Inr tok"
  shows "trace (snd (get_problems_data_page_body offset page_size page w))
     = trace w @ [NetCsrf sid, Sleep (Seconds 2),
                  NetGraphql (session_client sid tok) (page_request offset page_size page)]"
  using assms
  by (auto simp add: get_problems_data_page_body_def get_leetcode_api_client_def
      get_csrf_cookie_def time_sleep_2 graphql_post_def emit_def
      split: option.splits sum.splits prod.splits)

lemma page_fetcher_posts_request:
  assumes "environ w ''LEETCODE_SESSION_ID'' = Some sid"
    and "csrf_service w (trace w) sid = Inr tok"
  shows "\<exists>evs. trace (snd (get_problems_data_page offset page_size page w))
     = trace w @ [NetCsrf sid, Sleep (Seconds 2),
                  NetGraphql (session_client sid tok) (page_request offset page_size page)] @ evs"
proof -
  have "\<exists>evs. trace (snd (wrapper_loop 3 transient (Seconds 5)
            (get_problems_data_page_body offset page_size page) (0 # [1]) w))
        = trace (snd (get_problems_data_page_body offset page_size page w)) @ evs"
    by (rule wrapper_loop_extends_first_call) (rule body_trace_grows)
  then show ?thesis
    by (simp add: get_problems_data_page_def retry_def py_range_2 body_posts_request[OF assms])
qed

lemma window_card:
  "0 < page_size \<Longrightarrow> card (window (page_request offset page_size page)) = nat page_size"
  by (simp add: window_page_request algebra_simps)

lemma windows_disjoint_neq:
  assumes "0 < page_size" and "i \<noteq> j"
  shows "window (page_request offset page_size i) \<inter> window (page_request offset page_size j) = {}"
proof (cases "i < j")
  case True
  then show ?thesis by (rule windows_disjoint[OF assms(1)])
next
  case False
  with assms(2) have "j < i" by simp
  from windows_disjoint[OF assms(1) this, of offset] show ?thesis by blast
qed

lemma windows_cover:
  assumes "0 < page_size"
  shows "(\<Union>i<n. window (page_request offset page_size (int i)))
       = {offset ..< offset + int n * page_size}"
proof (induction n)
  case 0
  then show ?case by simp
next
  case (Suc n)
  have w: "window (page_request offset page_size (int n))
      = {offset + int n * page_size ..< offset + (int n + 1) * page_size}"
    by (rule window_page_request)
  have u: "{offset ..< offset + int n * page_size}
        \<union> {offset + int n * page_size ..< offset + (int n + 1) * page_size}
      = {offset ..< offset + (int n + 1) * page_size}"
    using assms by (intro ivl_disj_un) (simp_all add: algebra_simps)
  have "(\<Union>i<Suc n. window (page_request offset page_size (int i)))
      = (\<Union>i<n. window (page_request offset page_size (int i)))
        \<union> window (page_request offset page_size (int n))"
    by (simp add: lessThan_Suc Un_commute)
  also have "\<dots> = {offset ..< offset + (int n + 1) * page_size}"
    unfolding Suc.IH w by (rule u)
  finally show ?case by (simp add: algebra_simps)
qed

text \<open>
  Claim C6. For every base offset, page size \<open>page_size > 0\<close> and page index, every
  query that the page fetcher posts asks for \<open>limit = page_size\<close> items from
  \<open>skip = offset + page * page_size\<close> on, and with the session variable set and
  the token lookup answered it posts that query. The window of page \<open>page\<close> is the
  interval from \<open>offset + page * page_size\<close> up to, not including,
  \<open>offset + (page + 1) * page_size\<close>: it holds \<open>page_size\<close> positions, the windows
  of two different pages are disjoint, and the windows of the pages \<open>0, ..., n - 1\<close>
  together are exactly the positions from \<open>offset\<close> up to \<open>offset + n * page_size\<close>.
\<close>

theorem page_fetcher_window:
  assumes "0 < page_size"
  shows "(\<exists>evs. trace (snd (get_problems_data_page offset page_size page w)) = trace w @ evs
            \<and> (\<forall>ev\<in>set evs. \<forall>c q. ev = NetGraphql c q \<longrightarrow>
                  skip (vars q) = offset + page * page_size \<and> limit (vars q) = page_size))
    \<and> (\<forall>sid tok. environ w ''LEETCODE_SESSION_ID'' = Some sid \<and> csrf_service w (trace w) sid = Inr tok
          \<longrightarrow> (\<exists>evs. trace (snd (get_problems_data_page offset page_size page w))
                 = trace w @ [NetCsrf sid, Sleep (Seconds 2),
                     NetGraphql (session_client sid tok) (page_request offset page_size page)] @ evs))
    \<and> window (page_request offset page_size page)
         = {offset + page * page_size ..< offset + (page + 1) * page_size}
    \<and> card (window (page_request offset page_size page)) = nat page_size
    \<and> (\<forall>i j. i \<noteq> j \<longrightarrow>
          window (page_request offset page_size i) \<inter> window (page_request offset page_size j) = {})
    \<and> (\<forall>n. (\<Union>i<n. window (page_request offset page_size (int i)))
              = {offset ..< offset + int n * page_size})"
proof -
  from page_fetcher_events[of offset page_size page w] obtain evs where
    e: "trace (snd (get_problems_data_page offset page_size page w)) = trace w @ evs"
       "\<forall>ev\<in>set evs. \<forall>c q. ev = NetGraphql c q \<longrightarrow> q = page_request offset page_size page"
    by blast
  have "\<forall>ev\<in>set evs. \<forall>c q. ev = NetGraphql c q \<longrightarrow>
          skip (vars q) = offset + page * page_size \<and> limit (vars q) = page_size"
    using e(2) by (auto simp add: page_request_def)
  with e(1) have A: "\<exists>evs. trace (snd (get_problems_data_page offset page_size page w)) = trace w @ evs
            \<and> (\<forall>ev\<in>set evs. \<forall>c q. ev = NetGraphql c q \<longrightarrow>
                  skip (vars q) = offset + page * page_size \<and> limit (vars q) = page_size)"
    by blast
  have B: "\<forall>sid tok. environ w ''LEETCODE_SESSION_ID'' = Some sid \<and> csrf_service w (trace w) sid = Inr tok
          \<longrightarrow> (\<exists>evs. trace (snd (get_problems_data_page offset page_size page w))
                 = trace w @ [NetCsrf sid, Sleep (Seconds 2),
                     NetGraphql (session_client sid tok) (page_request offset page_size page)] @ evs)"
    using page_fetcher_posts_request by blast
  have C: "\<forall>i j. i \<noteq> j \<longrightarrow>
          window (page_request offset page_size i) \<inter> window (page_request offset page_size j) = {}"
    using windows_disjoint_neq[OF assms] by blast
  have D: "\<forall>n. (\<Union>i<n. window (page_request offset page_size (int i)))
              = {offset ..< offset + int n * page_size}"
    using windows_cover[OF assms] by blast
  show ?thesis
    using A B C D window_page_request[of offset page_size page] window_card[OF assms, of offset page]
    by blast
qed

theorem page_fetcher_window_witness:
  "window (page_request 0 300 2) = {600 ..< 900}
   \<and> card (window (page_request 0 300 2)) = 300
   \<and> window (page_request 0 300 0) \<inter> window (page_request 0 300 1) = {}
   \<and> (\<exists>evs. trace (snd (get_problems_data_page 0 300 2 null_total_world))
         = [NetCsrf ''session'', Sleep (Seconds 2),
            NetGraphql (session_client ''session'' ''token'') (page_request 0 300 2)] @ evs)"
proof -
  have h: "(0::int) < 300" by simp
  note t = page_fetcher_window[OF h, of 0 2 null_total_world]
  have a: "window (page_request 0 300 2) = {600 ..< 900}" using t by simp
  have b: "card (window (page_request 0 300 2)) = 300" using t by simp
  have "(0::int) \<noteq> 1" by simp
  with t have c: "window (page_request 0 300 0) \<inter> window (page_request 0 300 1) = {}" by blast
  have "environ null_total_world ''LEETCODE_SESSION_ID'' = Some ''session''
      \<and> csrf_service null_total_world (trace null_total_world) ''session'' = Inr ''token''"
    by (simp add: null_total_world_def)
  with t have "\<exists>evs. trace (snd (get_problems_data_page 0 300 2 null_total_world))
         = trace null_total_world @ [NetCsrf ''session'', Sleep (Seconds 2),
            NetGraphql (session_client ''session'' ''token'') (page_request 0 300 2)] @ evs"
    by blast
  then have d: "\<exists>evs. trace (snd (get_problems_data_page 0 300 2 null_total_world))
         = [NetCsrf ''session'', Sleep (Seconds 2),
            NetGraphql (session_client ''session'' ''token'') (page_request 0 300 2)] @ evs"
    by (simp add: null_total_world_def)
  from a b c d show ?thesis by blast
qed

section \<open>Properties of the export\<close>

subsection \<open>A missing credential\<close>

lemma api_client_missing_credential:
  "environ w ''LEETCODE_SESSION_ID'' = None \<Longrightarrow>
   get_leetcode_api_client w = (Inl (KeyError ''LEETCODE_SESSION_ID''), w)"
  by (simp add: get_leetcode_api_client_def)

lemma count_missing_credential:
  assumes "environ w ''LEETCODE_SESSION_ID'' = None"
  shows "get_problems_count w = (Inl (KeyError ''LEETCODE_SESSION_ID''), w)"
  by (simp add: get_problems_count_def retry_def py_range_2 get_problems_count_body_def
      api_client_missing_credential[OF assms] transient_def)

lemma main_missing_credential:
  assumes "environ w ''LEETCODE_SESSION_ID'' = None"
  shows "main L a w = (Inl (KeyError ''LEETCODE_SESSION_ID''), w)"
  by (simp add: main_def get_problems_data_def get_problems_data_with_def
      count_missing_credential[OF assms])

text \<open>
  Claim C9. When the variable \<^verbatim>\<open>LEETCODE_SESSION_ID\<close> is not set, a run of \<open>main\<close>
  ends with the \<^verbatim>\<open>KeyError\<close> of the lookup, and it leaves the world as it found it:
  no call has reached the remote transport (the calls recorded in the trace are
  those that were there before), nothing was slept, logged or written.
\<close>

theorem missing_credential_fails_before_network:
  assumes "environ w ''LEETCODE_SESSION_ID'' = None"
  shows "fst (main L a w) = Inl (KeyError ''LEETCODE_SESSION_ID'')
    \<and> filter is_net (trace (snd (main L a w))) = filter is_net (trace w)
    \<and> snd (main L a w) = w"
  by (simp add: main_missing_credential[OF assms])

theorem missing_credential_fails_before_network_witness:
  "fst (main sample_pylib default_args fresh_mock_world) = Inl (KeyError ''LEETCODE_SESSION_ID'')
    \<and> filter is_net (trace (snd (main sample_pylib default_args fresh_mock_world))) = []"
  using missing_credential_fails_before_network[of fresh_mock_world sample_pylib default_args]
  by (simp add: fresh_mock_world_def)

subsection \<open>The rows of the file\<close>










subsection \<open>The row of an item of the expected shape\<close>









subsection \<open>The row of an item that departs from the expected shape\<close>






subsection \<open>The sample items\<close>















end
